theory Spec2Isabelle
  imports Complex_Main "HOL-Library.AList"
begin

section \<open>Data model of the postcode collector\<close>

text \<open>
  Coordinates are Python floats in the source. They are modelled as real numbers: the
  properties below depend on the order of coordinates and on their sums and quotients,
  not on rounding. A postcode is a Python \<open>str\<close>, modelled as \<open>string\<close>.
\<close>

type_synonym point = "real \<times> real"

datatype error = ValueError | IndexError | TypeError | AttributeError

text \<open>
  Modelled from the spec: the class \<open>PointsCentroid\<close> of \<open>utils/centroid.py\<close> is
  not part of the sources at hand. The specification gives it the running sum of x, the
  running sum of y and the number of points folded; folding a point adds its coordinates
  and increments the count and never fails; \<open>centroid()\<close> is the mean point and an error
  on an accumulator into which nothing has been folded.
\<close>

record PointsCentroid =
  sum_x :: real
  sum_y :: real
  count :: nat

definition PointsCentroid_init :: PointsCentroid where
  "PointsCentroid_init = \<lparr>sum_x = 0, sum_y = 0, count = 0\<rparr>"

definition iadd :: "PointsCentroid \<Rightarrow> point \<Rightarrow> PointsCentroid" where
  "iadd pcobj p =
     pcobj\<lparr>sum_x := sum_x pcobj + fst p, sum_y := sum_y pcobj + snd p,
            count := count pcobj + 1\<rparr>"

definition centroid :: "PointsCentroid \<Rightarrow> error + point" where
  "centroid pcobj =
     (if count pcobj = 0 then Inl ValueError
      else Inr (sum_x pcobj / real (count pcobj), sum_y pcobj / real (count pcobj)))"

text \<open>
  Modelled from the spec: \<open>CountryPostcodeMatcher\<close> of \<open>data/postcode_format.py\<close> is
  not part of the sources at hand. The specification describes it as a capability
  \<open>match(raw) -> candidate | none\<close> and \<open>normalize(candidate) -> canonical | none\<close>.
  The type of candidates is left open; a candidate that was found counts as true in the
  source's test \<open>if match\<close>.
\<close>

record 'm CountryPostcodeMatcher =
  match :: "string \<Rightarrow> 'm option"
  normalize :: "'m \<Rightarrow> string option"

text \<open>
  The class \<open>_PostcodeCollector\<close>. The dictionary \<open>collected\<close> is an association list
  in insertion order, as a Python dictionary iterates: a new key goes to the end, an
  existing key keeps its place.
\<close>

type_synonym collected_dict = "(string \<times> PointsCentroid) list"

record 'm PostcodeCollector =
  country :: string
  matcher :: "'m CountryPostcodeMatcher option"
  collected :: collected_dict
  normalization_cache :: "(string \<times> string option) option"

definition PostcodeCollector_init ::
  "string \<Rightarrow> 'm CountryPostcodeMatcher option \<Rightarrow> 'm PostcodeCollector" where
  "PostcodeCollector_init cc mt =
     \<lparr>country = cc, matcher = mt, collected = [], normalization_cache = None\<rparr>"

text \<open>
  \<open>self.collected[key] += (x, y)\<close> on a \<open>defaultdict(PointsCentroid)\<close>: a missing key
  starts from a new accumulator, then the point is folded in and the result stored.
\<close>

definition collected_iadd :: "collected_dict \<Rightarrow> string \<Rightarrow> point \<Rightarrow> collected_dict" where
  "collected_iadd col k p =
     AList.update k
       (iadd (case map_of col k of None \<Rightarrow> PointsCentroid_init | Some pcobj \<Rightarrow> pcobj) p) col"

text \<open>
  \<open>match = self.matcher.match(postcode)\<close> followed by
  \<open>self.matcher.normalize(match) if match else None\<close>.
\<close>

definition match_normalize :: "'m CountryPostcodeMatcher \<Rightarrow> string \<Rightarrow> string option" where
  "match_normalize m pc =
     (case match m pc of None \<Rightarrow> None | Some cand \<Rightarrow> normalize m cand)"

text \<open>The test \<open>if normalized\<close> on an optional string: \<open>None\<close> and the empty string are false.\<close>

fun truthy :: "string option \<Rightarrow> bool" where
  "truthy None = False"
| "truthy (Some s) = (s \<noteq> [])"

definition add :: "'m PostcodeCollector \<Rightarrow> string \<Rightarrow> real \<Rightarrow> real \<Rightarrow> 'm PostcodeCollector" where
  "add self pc px py =
     (case matcher self of
        None \<Rightarrow> self
      | Some m \<Rightarrow>
          let hit = (case normalization_cache self of
                       None \<Rightarrow> False
                     | Some entry \<Rightarrow> fst entry = pc);
              normalized = (if hit then snd (the (normalization_cache self))
                            else match_normalize m pc);
              self1 = (if hit then self
                       else self\<lparr>normalization_cache := Some (pc, normalized)\<rparr>)
          in if truthy normalized
             then self1\<lparr>collected := collected_iadd (collected self1) (the normalized) (px, py)\<rparr>
             else self1)"

text \<open>
  The variant of \<open>add\<close> that the cache is compared with: it runs \<open>match\<close> and
  \<open>normalize\<close> on every call and neither reads nor writes \<open>normalization_cache\<close>.
\<close>

definition add_uncached ::
  "'m PostcodeCollector \<Rightarrow> string \<Rightarrow> real \<Rightarrow> real \<Rightarrow> 'm PostcodeCollector" where
  "add_uncached self pc px py =
     (case matcher self of
        None \<Rightarrow> self
      | Some m \<Rightarrow>
          let normalized = match_normalize m pc
          in if truthy normalized
             then self\<lparr>collected := collected_iadd (collected self) (the normalized) (px, py)\<rparr>
             else self)"

text \<open>A run of \<open>add\<close> calls, one for each row \<open>(postcode, x, y)\<close>.\<close>

fun add_all :: "'m PostcodeCollector \<Rightarrow> (string \<times> real \<times> real) list \<Rightarrow> 'm PostcodeCollector" where
  "add_all self [] = self"
| "add_all self (r # rs) = add_all (add self (fst r) (fst (snd r)) (snd (snd r))) rs"

fun add_uncached_all ::
  "'m PostcodeCollector \<Rightarrow> (string \<times> real \<times> real) list \<Rightarrow> 'm PostcodeCollector" where
  "add_uncached_all self [] = self"
| "add_uncached_all self (r # rs) =
     add_uncached_all (add_uncached self (fst r) (fst (snd r)) (snd (snd r))) rs"

section \<open>External postcode files\<close>

text \<open>
  The builtin \<open>float()\<close> on a string is a parameter \<open>float_of\<close> of the model: it
  gives \<open>None\<close> where Python raises \<open>ValueError\<close>, and otherwise a float, which is a
  finite number, an infinity or a NaN. The argument of \<open>_to_float\<close> is a field of a row
  of the external file, which is a string or \<open>None\<close> (see \<open>csv_row\<close> below);
  \<open>float(None)\<close> raises \<open>TypeError\<close>.
\<close>

datatype pyfloat = Finite real | PosInf | NegInf | NaN

fun isfinite :: "pyfloat \<Rightarrow> bool" where
  "isfinite (Finite r) = True"
| "isfinite PosInf = False"
| "isfinite NegInf = False"
| "isfinite NaN = False"

definition to_float ::
  "(string \<Rightarrow> pyfloat option) \<Rightarrow> string option \<Rightarrow> real \<Rightarrow> error + real" where
  "to_float float_of numstr max_value =
     (case numstr of
        None \<Rightarrow> Inl TypeError
      | Some s \<Rightarrow>
          (case float_of s of
             None \<Rightarrow> Inl ValueError
           | Some num \<Rightarrow>
               (case num of
                  Finite r \<Rightarrow>
                    if \<not> isfinite num \<or> r \<le> - max_value \<or> r \<ge> max_value
                    then Inl ValueError else Inr r
                | _ \<Rightarrow> Inl ValueError)))"

text \<open>The messages that the module writes to its logger.\<close>

datatype log_record =
    Info_using_external string
  | Info_processing string nat nat nat
  | Warning_bad_format string
  | Warning_bad_coordinates "string option" "string option" string

text \<open>
  A row of \<open>csv.DictReader\<close> is a dictionary from the column names of the header to
  fields. A field is a string, or \<open>None\<close> where the line has fewer fields than the
  header: the reader fills the missing columns with \<open>None\<close>. So \<open>row k = None\<close> says
  that the file has no column \<open>k\<close>, and \<open>row k = Some None\<close> that the line stops
  before column \<open>k\<close>. The project directory is seen through the files that
  \<open>_open_external\<close> looks for: a map from file names to the rows the reader yields.
\<close>

type_synonym csv_row = "string \<rightharpoonup> string option"

type_synonym project_directory = "string \<rightharpoonup> csv_row list"

text \<open>
  Modelled from the spec: \<open>AbstractAnalyzer\<close> of \<open>tokenizer/base.py\<close> is not part of the
  sources at hand. The specification gives it \<open>normalize_postcode(raw) -> string\<close> on a
  string. The source also hands it the field of a short line, which is \<open>None\<close>; what
  the analyzer does then is not specified and is a second parameter: the string it
  returns or the error it raises.
\<close>

record AbstractAnalyzer =
  normalize_postcode :: "string \<Rightarrow> string"
  normalize_postcode_of_None :: "error + string"

definition call_normalize_postcode :: "AbstractAnalyzer \<Rightarrow> string option \<Rightarrow> error + string" where
  "call_normalize_postcode analyzer field =
     (case field of
        None \<Rightarrow> normalize_postcode_of_None analyzer
      | Some s \<Rightarrow> Inr (normalize_postcode analyzer s))"

definition open_external ::
  "'m PostcodeCollector \<Rightarrow> project_directory \<Rightarrow> log_record list
     \<Rightarrow> csv_row list option \<times> log_record list" where
  "open_external self project_dir lg =
     (let fname = country self @ ''_postcodes.csv''
      in case project_dir fname of
           Some f \<Rightarrow> (Some f, lg @ [Info_using_external fname])
         | None \<Rightarrow>
             (let fname = country self @ ''_postcodes.csv.gz''
              in case project_dir fname of
                   Some f \<Rightarrow> (Some f, lg @ [Info_using_external fname])
                 | None \<Rightarrow> (None, lg)))"

text \<open>
  The loop \<open>for row in reader\<close> of \<open>_update_from_external\<close>. The call of the analyzer
  is outside the \<open>try\<close>, so an error it raises leaves the loop. Only \<open>ValueError\<close> is
  caught around the conversion of the coordinates; any other error leaves the loop as
  well, and with it \<open>_update_from_external\<close> and \<open>commit\<close>.
\<close>

fun external_rows ::
  "(string \<Rightarrow> pyfloat option) \<Rightarrow> AbstractAnalyzer \<Rightarrow> string \<Rightarrow> csv_row list
     \<Rightarrow> collected_dict \<Rightarrow> log_record list \<Rightarrow> error + (collected_dict \<times> log_record list)" where
  "external_rows float_of analyzer cc [] col lg = Inr (col, lg)"
| "external_rows float_of analyzer cc (row # reader) col lg =
     (if row ''postcode'' = None \<or> row ''lat'' = None \<or> row ''lon'' = None
      then Inr (col, lg @ [Warning_bad_format cc])
      else
        (case call_normalize_postcode analyzer (the (row ''postcode'')) of
           Inl e \<Rightarrow> Inl e
         | Inr pc \<Rightarrow>
             if map_of col pc = None
             then (case to_float float_of (the (row ''lon'')) 180 of
                     Inl ValueError \<Rightarrow>
                       external_rows float_of analyzer cc reader col
                         (lg @ [Warning_bad_coordinates (the (row ''lat'')) (the (row ''lon'')) cc])
                   | Inl e \<Rightarrow> Inl e
                   | Inr lon \<Rightarrow>
                       (case to_float float_of (the (row ''lat'')) 90 of
                          Inl ValueError \<Rightarrow>
                            external_rows float_of analyzer cc reader col
                              (lg @ [Warning_bad_coordinates (the (row ''lat''))
                                       (the (row ''lon'')) cc])
                        | Inl e \<Rightarrow> Inl e
                        | Inr lat \<Rightarrow>
                            external_rows float_of analyzer cc reader
                              (collected_iadd col pc (lon, lat)) lg))
             else external_rows float_of analyzer cc reader col lg))"

definition update_from_external ::
  "(string \<Rightarrow> pyfloat option) \<Rightarrow> 'm PostcodeCollector \<Rightarrow> AbstractAnalyzer
     \<Rightarrow> project_directory \<Rightarrow> log_record list
     \<Rightarrow> error + ('m PostcodeCollector \<times> log_record list)" where
  "update_from_external float_of self analyzer project_dir lg =
     (case open_external self project_dir lg of
        (None, lg1) \<Rightarrow> Inr (self, lg1)
      | (Some csvfile, lg1) \<Rightarrow>
          (case external_rows float_of analyzer (country self) csvfile (collected self) lg1 of
             Inl e \<Rightarrow> Inl e
           | Inr (col, lg2) \<Rightarrow> Inr (self\<lparr>collected := col\<rparr>, lg2)))"

section \<open>The stored table and the diff\<close>

text \<open>
  The table \<open>location_postcode\<close> with the columns that the statements of the module
  name; the geometry is the point \<open>(ST_X, ST_Y)\<close>. A query without \<open>ORDER BY\<close> returns
  the rows in the order of the list. The connection also carries the sequence
  \<open>seq_place\<close>, the rows of the query over \<open>place\<close> and \<open>placex\<close>, and the writing
  statements executed so far.
\<close>

record location_postcode_row =
  place_id :: int
  indexed_status :: nat
  country_code :: string
  postcode :: string
  geometry :: point

datatype statement =
    INSERT string "(string \<times> real \<times> real) list"
  | DELETE string "string list"
  | UPDATE string "(real \<times> real \<times> string) list"

record connection =
  location_postcode :: "location_postcode_row list"
  seq_place :: int
  placex_postcodes :: "(string \<times> string \<times> real \<times> real) list"
  executed :: "statement list"

definition select_postcodes :: "connection \<Rightarrow> string \<Rightarrow> (string \<times> real \<times> real) list" where
  "select_postcodes conn cc =
     map (\<lambda>r. (postcode r, fst (geometry r), snd (geometry r)))
       (filter (\<lambda>r. country_code r = cc) (location_postcode conn))"

fun insert_rows :: "string \<Rightarrow> (string \<times> real \<times> real) list \<Rightarrow> connection \<Rightarrow> connection" where
  "insert_rows cc [] conn = conn"
| "insert_rows cc ((pc, px, py) # params) conn =
     insert_rows cc params
       (conn\<lparr>location_postcode := location_postcode conn @
                 [\<lparr>place_id = seq_place conn + 1, indexed_status = 1, country_code = cc,
                   postcode = pc, geometry = (px, py)\<rparr>],
              seq_place := seq_place conn + 1\<rparr>)"

definition delete_rows :: "string \<Rightarrow> string list \<Rightarrow> connection \<Rightarrow> connection" where
  "delete_rows cc pcs conn =
     conn\<lparr>location_postcode :=
            filter (\<lambda>r. \<not> (country_code r = cc \<and> postcode r \<in> set pcs))
              (location_postcode conn)\<rparr>"

fun update_rows :: "string \<Rightarrow> (real \<times> real \<times> string) list \<Rightarrow> connection \<Rightarrow> connection" where
  "update_rows cc [] conn = conn"
| "update_rows cc ((px, py, pc) # params) conn =
     update_rows cc params
       (conn\<lparr>location_postcode :=
               map (\<lambda>r. if country_code r = cc \<and> postcode r = pc
                         then r\<lparr>indexed_status := 2, geometry := (px, py)\<rparr> else r)
                 (location_postcode conn)\<rparr>)"

fun execute :: "statement \<Rightarrow> connection \<Rightarrow> connection" where
  "execute (INSERT cc params) conn =
     (insert_rows cc params conn)\<lparr>executed := executed conn @ [INSERT cc params]\<rparr>"
| "execute (DELETE cc pcs) conn =
     (delete_rows cc pcs conn)\<lparr>executed := executed conn @ [DELETE cc pcs]\<rparr>"
| "execute (UPDATE cc params) conn =
     (update_rows cc params conn)\<lparr>executed := executed conn @ [UPDATE cc params]\<rparr>"

text \<open>
  The loop over the stored rows in \<open>_compute_changes\<close>. \<open>self.collected.pop(postcode,
  None)\<close> removes the key; the test \<open>if pcobj\<close> holds for an accumulator that was found.
  An accumulator in the dictionary of a collector holds at least one point (see
  \<open>collected_ok\<close> below), so the test separates the keys that are collected from those
  that are not, and \<open>centroid()\<close> does not raise.
\<close>

fun scan_stored ::
  "(string \<times> real \<times> real) list \<Rightarrow> collected_dict \<Rightarrow> (real \<times> real \<times> string) list
     \<Rightarrow> string list
     \<Rightarrow> error + (collected_dict \<times> (real \<times> real \<times> string) list \<times> string list)" where
  "scan_stored [] col to_update to_delete = Inr (col, to_update, to_delete)"
| "scan_stored ((pc, sx, sy) # cur) col to_update to_delete =
     (case map_of col pc of
        Some pcobj \<Rightarrow>
          (case centroid pcobj of
             Inl e \<Rightarrow> Inl e
           | Inr new \<Rightarrow>
               scan_stored cur (AList.delete pc col)
                 (if sx - fst new > 1 / 10000000 \<or> sy - snd new > 1 / 10000000
                  then to_update @ [(fst new, snd new, pc)] else to_update)
                 to_delete)
      | None \<Rightarrow> scan_stored cur (AList.delete pc col) to_update (to_delete @ [pc]))"

text \<open>\<open>[(k, *v.centroid()) for k, v in self.collected.items()]\<close>\<close>

fun items_centroids :: "collected_dict \<Rightarrow> error + (string \<times> real \<times> real) list" where
  "items_centroids [] = Inr []"
| "items_centroids ((k, v) # kvs) =
     (case centroid v of
        Inl e \<Rightarrow> Inl e
      | Inr c \<Rightarrow>
          (case items_centroids kvs of
             Inl e \<Rightarrow> Inl e
           | Inr rest \<Rightarrow> Inr ((k, fst c, snd c) # rest)))"

type_synonym changes =
  "(string \<times> real \<times> real) list \<times> string list \<times> (real \<times> real \<times> string) list"

definition compute_changes ::
  "'m PostcodeCollector \<Rightarrow> connection \<Rightarrow> error + ('m PostcodeCollector \<times> changes)" where
  "compute_changes self conn =
     (case scan_stored (select_postcodes conn (country self)) (collected self) [] [] of
        Inl e \<Rightarrow> Inl e
      | Inr (col, to_update, to_delete) \<Rightarrow>
          (case items_centroids col of
             Inl e \<Rightarrow> Inl e
           | Inr to_add \<Rightarrow> Inr (self\<lparr>collected := []\<rparr>, to_add, to_delete, to_update)))"

text \<open>
  The first two statements of \<open>commit\<close>: the merge of the external file, when a project
  directory is given, and the diff.
\<close>

definition commit_changes ::
  "(string \<Rightarrow> pyfloat option) \<Rightarrow> 'm PostcodeCollector \<Rightarrow> connection \<Rightarrow> AbstractAnalyzer
     \<Rightarrow> project_directory option \<Rightarrow> log_record list
     \<Rightarrow> error + ('m PostcodeCollector \<times> changes \<times> log_record list)" where
  "commit_changes float_of self conn analyzer project_dir lg =
     (case (case project_dir of
              None \<Rightarrow> Inr (self, lg)
            | Some d \<Rightarrow> update_from_external float_of self analyzer d lg) of
        Inl e \<Rightarrow> Inl e
      | Inr (self1, lg1) \<Rightarrow>
          (case compute_changes self1 conn of
             Inl e \<Rightarrow> Inl e
           | Inr (self2, chg) \<Rightarrow> Inr (self2, chg, lg1)))"

definition apply_changes :: "string \<Rightarrow> changes \<Rightarrow> connection \<Rightarrow> connection" where
  "apply_changes cc chg conn =
     (let to_add = fst chg; to_delete = fst (snd chg); to_update = snd (snd chg);
          conn1 = (if to_add \<noteq> [] then execute (INSERT cc to_add) conn else conn);
          conn2 = (if to_delete \<noteq> [] then execute (DELETE cc to_delete) conn1 else conn1)
      in if to_update \<noteq> [] then execute (UPDATE cc to_update) conn2 else conn2)"

definition commit ::
  "(string \<Rightarrow> pyfloat option) \<Rightarrow> 'm PostcodeCollector \<Rightarrow> connection \<Rightarrow> AbstractAnalyzer
     \<Rightarrow> project_directory option \<Rightarrow> log_record list
     \<Rightarrow> error + ('m PostcodeCollector \<times> connection \<times> log_record list)" where
  "commit float_of self conn analyzer project_dir lg =
     (case commit_changes float_of self conn analyzer project_dir lg of
        Inl e \<Rightarrow> Inl e
      | Inr (self1, chg, lg1) \<Rightarrow>
          Inr (self1, apply_changes (country self1) chg conn,
               lg1 @ [Info_processing (country self1) (length (fst chg))
                        (length (fst (snd chg))) (length (snd (snd chg)))]))"

section \<open>The driver\<close>

text \<open>
  \<open>update_postcodes\<close>. The tokenizer is seen through its analyzer, the
  \<open>PostcodeFormatter\<close> through its method \<open>get_matcher\<close>. The set \<open>todo_countries\<close> is
  a list without duplicates; Python fixes no order for the iteration over a set, and
  the model takes the order of the list. \<open>conn.commit()\<close> and
  \<open>analyzer.update_postcodes_from_db()\<close> leave the table as it is and are not modelled.
\<close>

fun stream_rows ::
  "(string \<Rightarrow> pyfloat option) \<Rightarrow> (string \<Rightarrow> 'm CountryPostcodeMatcher option)
     \<Rightarrow> AbstractAnalyzer \<Rightarrow> project_directory option
     \<Rightarrow> (string \<times> string \<times> real \<times> real) list
     \<Rightarrow> 'm PostcodeCollector option \<Rightarrow> connection \<Rightarrow> string list \<Rightarrow> log_record list
     \<Rightarrow> error + ('m PostcodeCollector option \<times> connection \<times> string list \<times> log_record list)"
  where
  "stream_rows float_of get_matcher analyzer project_dir [] collector conn todo lg =
     Inr (collector, conn, todo, lg)"
| "stream_rows float_of get_matcher analyzer project_dir ((cc, pc, px, py) # cur)
       collector conn todo lg =
     (case (case collector of
              None \<Rightarrow>
                Inr (PostcodeCollector_init cc (get_matcher cc), conn, removeAll cc todo, lg)
            | Some c \<Rightarrow>
                if cc \<noteq> country c
                then (case commit float_of c conn analyzer project_dir lg of
                        Inl e \<Rightarrow> Inl e
                      | Inr (c1, conn1, lg1) \<Rightarrow>
                          Inr (PostcodeCollector_init cc (get_matcher cc), conn1,
                               removeAll cc todo, lg1))
                else Inr (c, conn, todo, lg)) of
        Inl e \<Rightarrow> Inl e
      | Inr (c, conn1, todo1, lg1) \<Rightarrow>
          stream_rows float_of get_matcher analyzer project_dir cur
            (Some (add c pc px py)) conn1 todo1 lg1)"

fun todo_loop ::
  "(string \<Rightarrow> pyfloat option) \<Rightarrow> (string \<Rightarrow> 'm CountryPostcodeMatcher option)
     \<Rightarrow> AbstractAnalyzer \<Rightarrow> project_directory option
     \<Rightarrow> string list \<Rightarrow> connection \<Rightarrow> log_record list
     \<Rightarrow> error + (connection \<times> log_record list)" where
  "todo_loop float_of get_matcher analyzer project_dir [] conn lg = Inr (conn, lg)"
| "todo_loop float_of get_matcher analyzer project_dir (cc # todo) conn lg =
     (case commit float_of (PostcodeCollector_init cc (get_matcher cc)) conn analyzer
             project_dir lg of
        Inl e \<Rightarrow> Inl e
      | Inr (c1, conn1, lg1) \<Rightarrow>
          todo_loop float_of get_matcher analyzer project_dir todo conn1 lg1)"

definition update_postcodes ::
  "(string \<Rightarrow> pyfloat option) \<Rightarrow> (string \<Rightarrow> 'm CountryPostcodeMatcher option)
     \<Rightarrow> connection \<Rightarrow> project_directory option \<Rightarrow> AbstractAnalyzer \<Rightarrow> log_record list
     \<Rightarrow> error + (connection \<times> log_record list)" where
  "update_postcodes float_of get_matcher conn project_dir analyzer lg =
     (let todo_countries = remdups (map country_code (location_postcode conn))
      in case stream_rows float_of get_matcher analyzer project_dir (placex_postcodes conn)
                None conn todo_countries lg of
           Inl e \<Rightarrow> Inl e
         | Inr (collector, conn1, todo1, lg1) \<Rightarrow>
             (case (case collector of
                      None \<Rightarrow> Inr (conn1, lg1)
                    | Some c \<Rightarrow>
                        (case commit float_of c conn1 analyzer project_dir lg1 of
                           Inl e \<Rightarrow> Inl e
                         | Inr (c1, conn2, lg2) \<Rightarrow> Inr (conn2, lg2))) of
                Inl e \<Rightarrow> Inl e
              | Inr (conn2, lg2) \<Rightarrow>
                  todo_loop float_of get_matcher analyzer project_dir todo1 conn2 lg2))"

section \<open>Version strings\<close>

text \<open>
  \<open>NominatimVersion\<close>. The fields are Python integers; \<open>__str__\<close> tests
  \<open>db_patch_level\<close> against \<open>None\<close>, so that field is optional in the model.
\<close>

record NominatimVersion =
  major :: int
  minor :: int
  patch_level :: int
  db_patch_level :: "int option"

text \<open>
  \<open>str\<close> of an integer, as the f-strings of \<open>__str__\<close> format the fields. CPython
  refuses to convert between an integer and a decimal string of more than
  \<open>sys.int_max_str_digits\<close> digits, 4300 unless configured otherwise, and raises
  \<open>ValueError\<close>.
\<close>

definition int_max_str_digits :: nat where
  "int_max_str_digits = 4300"

definition digit_char :: "nat \<Rightarrow> char" where
  "digit_char d = char_of (48 + d)"

fun str_nat :: "nat \<Rightarrow> string" where
  "str_nat n = (if n < 10 then [digit_char n] else str_nat (n div 10) @ [digit_char (n mod 10)])"

declare str_nat.simps [simp del]

definition str_int :: "int \<Rightarrow> error + string" where
  "str_int i =
     (if 10 ^ int_max_str_digits \<le> \<bar>i\<bar> then Inl ValueError
      else if i < 0 then Inr (CHR ''-'' # str_nat (nat (- i)))
      else Inr (str_nat (nat i)))"

text \<open>
  \<open>__str__\<close>. An f-string formats its fields from left to right, and the first that
  fails raises.
\<close>

definition NominatimVersion_str :: "NominatimVersion \<Rightarrow> error + string" where
  "NominatimVersion_str v =
     (case db_patch_level v of
        None \<Rightarrow>
          (case str_int (major v) of Inl e \<Rightarrow> Inl e | Inr a \<Rightarrow>
           (case str_int (minor v) of Inl e \<Rightarrow> Inl e | Inr b \<Rightarrow>
            (case str_int (patch_level v) of Inl e \<Rightarrow> Inl e | Inr c \<Rightarrow>
               Inr (a @ ''.'' @ b @ ''.'' @ c))))
      | Some d \<Rightarrow>
          (case str_int (major v) of Inl e \<Rightarrow> Inl e | Inr a \<Rightarrow>
           (case str_int (minor v) of Inl e \<Rightarrow> Inl e | Inr b \<Rightarrow>
            (case str_int (patch_level v) of Inl e \<Rightarrow> Inl e | Inr c \<Rightarrow>
             (case str_int d of Inl e \<Rightarrow> Inl e | Inr dd \<Rightarrow>
                Inr (a @ ''.'' @ b @ ''.'' @ c @ ''-'' @ dd))))))"

text \<open>\<open>str.split(sep)\<close> with a separator of one character.\<close>

fun str_split :: "char \<Rightarrow> string \<Rightarrow> string list" where
  "str_split sep [] = [[]]"
| "str_split sep (c # cs) =
     (if c = sep then [] # str_split sep cs
      else (case str_split sep cs of [] \<Rightarrow> [[c]] | p # ps \<Rightarrow> (c # p) # ps))"

text \<open>
  \<open>int(x)\<close> of a string: white space around the number is dropped, a sign may come
  first, and the digits may be separated by single underscores; more than
  \<open>int_max_str_digits\<close> digits raise \<open>ValueError\<close> like any other malformed string. A
  character of the model is a code point below 256. Of these, \<open>int\<close> drops the six
  ASCII white space characters and the two other white space characters of that range,
  U+0085 and U+00A0; the separators U+001C to U+001F are not dropped.
\<close>

definition is_space :: "char \<Rightarrow> bool" where
  "is_space c =
     (c \<in> set [CHR '' '', CHR 0x09, CHR 0x0A, CHR 0x0B, CHR 0x0C, CHR 0x0D, CHR 0x85, CHR 0xA0])"

definition is_digit :: "char \<Rightarrow> bool" where
  "is_digit c = (48 \<le> (of_char c :: nat) \<and> (of_char c :: nat) \<le> 57)"

definition strip :: "string \<Rightarrow> string" where
  "strip s = rev (dropWhile is_space (rev (dropWhile is_space s)))"

fun valid_digits :: "string \<Rightarrow> bool" where
  "valid_digits [] = False"
| "valid_digits [c] = is_digit c"
| "valid_digits (c # d # cs) =
     (is_digit c \<and> (if d = CHR ''_'' then valid_digits cs else valid_digits (d # cs)))"

definition digits_value :: "string \<Rightarrow> nat" where
  "digits_value ds = foldl (\<lambda>acc c. 10 * acc + (of_char c - 48)) 0 ds"

definition int_of_str :: "string \<Rightarrow> error + int" where
  "int_of_str s =
     (let t = strip s;
          neg = (case t of [] \<Rightarrow> False | c # cs \<Rightarrow> c = CHR ''-'');
          body = (case t of [] \<Rightarrow> [] | c # cs \<Rightarrow> if c = CHR ''-'' \<or> c = CHR ''+'' then cs else t)
      in if valid_digits body \<and> length (filter is_digit body) \<le> int_max_str_digits
         then Inr (if neg then - int (digits_value (filter is_digit body))
                   else int (digits_value (filter is_digit body)))
         else Inl ValueError)"

text \<open>\<open>[int(x) for x in ...]\<close>: the first string that is no integer raises.\<close>

fun ints_of_strs :: "string list \<Rightarrow> error + int list" where
  "ints_of_strs [] = Inr []"
| "ints_of_strs (x # xs) =
     (case int_of_str x of
        Inl e \<Rightarrow> Inl e
      | Inr i \<Rightarrow> (case ints_of_strs xs of Inl e \<Rightarrow> Inl e | Inr is \<Rightarrow> Inr (i # is)))"

text \<open>
  \<open>parse_version\<close>: \<open>parts[2]\<close> raises \<open>IndexError\<close> when the string has fewer than two
  dots, and the constructor of the named tuple raises \<open>TypeError\<close> unless it is given
  exactly four values.
\<close>

definition parse_version :: "string \<Rightarrow> error + NominatimVersion" where
  "parse_version version =
     (let parts = str_split CHR ''.'' version
      in if length parts < 3 then Inl IndexError
         else (case ints_of_strs (take 2 parts @ str_split CHR ''-'' (parts ! 2)) of
                 Inl e \<Rightarrow> Inl e
               | Inr [a, b, c, d] \<Rightarrow>
                   Inr \<lparr>major = a, minor = b, patch_level = c, db_patch_level = Some d\<rparr>
               | Inr _ \<Rightarrow> Inl TypeError))"

section \<open>Invariants used in the proofs\<close>

text \<open>
  The cache of a collector is consistent with a matcher when the entry it holds is what
  the matcher computes for the cached postcode.
\<close>

definition cache_ok :: "'m CountryPostcodeMatcher \<Rightarrow> (string \<times> string option) option \<Rightarrow> bool" where
  "cache_ok m cache =
     (case cache of None \<Rightarrow> True | Some entry \<Rightarrow> snd entry = match_normalize m (fst entry))"

text \<open>
  A collected dictionary is well formed when its keys are unique and every accumulator
  holds at least one point. Every dictionary built by \<open>add\<close> and by the merge of an
  external file is well formed.
\<close>

definition collected_ok :: "collected_dict \<Rightarrow> bool" where
  "collected_ok col = (distinct (map fst col) \<and> list_all (\<lambda>kv. 0 < count (snd kv)) col)"

text \<open>
  A stored row \<open>(postcode, x, y)\<close> is settled for a dictionary when the postcode is
  collected and the test of \<open>_compute_changes\<close> for an update fails on it.
\<close>

definition settled :: "collected_dict \<Rightarrow> string \<times> real \<times> real \<Rightarrow> bool" where
  "settled col row =
     (case map_of col (fst row) of
        None \<Rightarrow> False
      | Some pcobj \<Rightarrow>
          (case centroid pcobj of
             Inl e \<Rightarrow> False
           | Inr new \<Rightarrow> \<not> (fst (snd row) - fst new > 1 / 10000000
                            \<or> snd (snd row) - snd new > 1 / 10000000)))"

text \<open>A row \<open>(postcode, x, y)\<close> carries the centroid that the dictionary has for its postcode.\<close>

definition centroid_at :: "collected_dict \<Rightarrow> string \<times> real \<times> real \<Rightarrow> bool" where
  "centroid_at col row =
     (case map_of col (fst row) of None \<Rightarrow> False | Some pcobj \<Rightarrow> centroid pcobj = Inr (snd row))"

text \<open>
  A row of an external file is complete when none of the three columns that the loop
  reads is a field that the reader has filled with \<open>None\<close>. The files of a project
  directory are complete when every row of every file is; without a project directory
  there is nothing to read.
\<close>

definition complete_row :: "csv_row \<Rightarrow> bool" where
  "complete_row row =
     (row ''postcode'' \<noteq> Some None \<and> row ''lat'' \<noteq> Some None \<and> row ''lon'' \<noteq> Some None)"

definition complete_files :: "project_directory option \<Rightarrow> bool" where
  "complete_files project_dir =
     (case project_dir of
        None \<Rightarrow> True
      | Some d \<Rightarrow> (\<forall>fname reader. d fname = Some reader \<longrightarrow> list_all complete_row reader))"

text \<open>A string of decimal digits, at least one.\<close>

definition digit_string :: "string \<Rightarrow> bool" where
  "digit_string s = (s \<noteq> [] \<and> (\<forall>c \<in> set s. is_digit c))"

text \<open>
  The effect of the \<open>UPDATE\<close> statements of a commit on the rows that the query of
  \<open>_compute_changes\<close> returns.
\<close>

fun update_view :: "(real \<times> real \<times> string) list \<Rightarrow> (string \<times> real \<times> real) list
    \<Rightarrow> (string \<times> real \<times> real) list" where
  "update_view [] v = v"
| "update_view (u # us) v =
     update_view us (map (\<lambda>r. if fst r = snd (snd u) then (snd (snd u), fst u, fst (snd u)) else r) v)"

text \<open>The country that a writing statement is about.\<close>

fun statement_country :: "statement \<Rightarrow> string" where
  "statement_country (INSERT cc params) = cc"
| "statement_country (DELETE cc pcs) = cc"
| "statement_country (UPDATE cc params) = cc"

text \<open>
  Two states of the database agree on a country when the query of \<open>_compute_changes\<close>
  returns the same rows for it and the same statements have been executed for it.
\<close>

definition same_for :: "string \<Rightarrow> connection \<Rightarrow> connection \<Rightarrow> bool" where
  "same_for cc conn conn' =
     (select_postcodes conn' cc = select_postcodes conn cc \<and>
      filter (\<lambda>s. statement_country s = cc) (executed conn') =
      filter (\<lambda>s. statement_country s = cc) (executed conn))"

text \<open>
  The collector that the driver holds open, if any, is for another country and well
  formed.
\<close>

definition open_ok :: "string \<Rightarrow> 'm PostcodeCollector option \<Rightarrow> bool" where
  "open_ok cc collector =
     (case collector of None \<Rightarrow> True | Some c \<Rightarrow> country c \<noteq> cc \<and> collected_ok (collected c))"

section \<open>The collector's \<open>add\<close>\<close>

text \<open>
  Claim C1, as stated: a collector without a matcher uses the raw postcode as the key,
  so that after \<open>add\<close> the dictionary has an accumulator for it. The source guards the
  whole body of \<open>add\<close> with \<open>if self.matcher is not None\<close>: on a new collector
  without a matcher, \<open>add\<close> of postcode 10115 leaves no entry for 10115.
\<close>

theorem add_without_matcher_counterexample:
  "map_of (collected (add (PostcodeCollector_init ''de''
             (None :: string CountryPostcodeMatcher option)) ''10115'' 13 52)) ''10115'' = None"
  by (simp add: add_def PostcodeCollector_init_def)

text \<open>
  Claim C1, amended: on a collector without a matcher, \<open>add\<close> changes nothing; the row is
  dropped.
\<close>

theorem add_without_matcher: "matcher self = None \<Longrightarrow> add self pc px py = self"
  by (simp add: add_def)

theorem add_without_matcher_witness:
  "matcher (PostcodeCollector_init ''de'' (None :: string CountryPostcodeMatcher option)) = None \<and>
   add (PostcodeCollector_init ''de'' (None :: string CountryPostcodeMatcher option)) ''10115'' 13 52
     = PostcodeCollector_init ''de'' None"
  using add_without_matcher
    [of "PostcodeCollector_init ''de'' (None :: string CountryPostcodeMatcher option)"
        "''10115''" 13 52]
  by (simp add: PostcodeCollector_init_def)

subsection \<open>The normalization cache\<close>

lemma add_cache_step:
  assumes "matcher c = Some m" "matcher c' = Some m" "collected c = collected c'"
    and "cache_ok m (normalization_cache c)"
  shows "matcher (add c pc px py) = Some m \<and> matcher (add_uncached c' pc px py) = Some m \<and>
     collected (add c pc px py) = collected (add_uncached c' pc px py) \<and>
     cache_ok m (normalization_cache (add c pc px py))"
  using assms
  by (auto simp: add_def add_uncached_def cache_ok_def Let_def split: option.splits)

lemma add_all_cache:
  assumes "matcher c = Some m" "matcher c' = Some m" "collected c = collected c'"
    and "cache_ok m (normalization_cache c)"
  shows "collected (add_all c rows) = collected (add_uncached_all c' rows)"
  using assms
proof (induction rows arbitrary: c c')
  case Nil
  then show ?case by simp
next
  case (Cons r rows)
  from add_cache_step[OF Cons.prems, of "fst r" "fst (snd r)" "snd (snd r)"]
  show ?case using Cons.IH by simp
qed

text \<open>
  Claim C9: on a collector with a matcher, any run of \<open>add\<close> calls collects the same
  dictionary as the run of the variant that calls \<open>match\<close> and \<open>normalize\<close> every time
  and has no cache. The matcher's two methods are functions of the model, hence pure.
\<close>

theorem cache_is_pure_optimization:
  "collected (add_all (PostcodeCollector_init cc (Some m)) rows) =
   collected (add_uncached_all (PostcodeCollector_init cc (Some m)) rows)"
  by (rule add_all_cache) (simp_all add: PostcodeCollector_init_def cache_ok_def)

theorem cache_is_pure_optimization_witness:
  "collected (add_uncached_all
      (PostcodeCollector_init ''de''
         (Some \<lparr>match = (\<lambda>s. if s = ''x'' then None else Some s),
                normalize = (\<lambda>s. Some s)\<rparr>))
      [(''10115'', 1, 2), (''10115'', 3, 4), (''x'', 0, 0), (''10117'', 5, 6), (''10115'', 5, 6)])
   = [(''10115'', \<lparr>sum_x = 9, sum_y = 12, count = 3\<rparr>),
      (''10117'', \<lparr>sum_x = 5, sum_y = 6, count = 1\<rparr>)]"
  using cache_is_pure_optimization
    [of "''de''" "\<lparr>match = (\<lambda>s. if s = ''x'' then None else Some s),
                normalize = (\<lambda>s. Some s)\<rparr>"
        "[(''10115'', 1, 2), (''10115'', 3, 4), (''x'', 0, 0), (''10117'', 5, 6), (''10115'', 5, 6)]",
     symmetric]
  by (simp add: PostcodeCollector_init_def add_def match_normalize_def collected_iadd_def
        iadd_def PointsCentroid_init_def)

section \<open>The dictionary of a collector is well formed\<close>

lemma collected_ok_Nil: "collected_ok []"
  by (simp add: collected_ok_def)

lemma set_update_cases:
  "kv \<in> set (AList.update k v al) \<Longrightarrow> kv = (k, v) \<or> kv \<in> set al"
  by (induction al) (auto split: if_splits)

lemma collected_ok_iadd:
  assumes "collected_ok col"
  shows "collected_ok (collected_iadd col k p)"
proof -
  have d: "distinct (map fst (collected_iadd col k p))"
    using assms by (simp add: collected_ok_def collected_iadd_def distinct_update)
  have "0 < count (snd kv)" if "kv \<in> set (collected_iadd col k p)" for kv
  proof -
    from set_update_cases[OF that[unfolded collected_iadd_def]]
    consider "kv = (k, iadd (case map_of col k of None \<Rightarrow> PointsCentroid_init
                                | Some pcobj \<Rightarrow> pcobj) p)"
      | "kv \<in> set col"
      by blast
    then show ?thesis
    proof cases
      case 1
      then show ?thesis by (simp add: iadd_def)
    next
      case 2
      with assms show ?thesis by (simp add: collected_ok_def list_all_iff)
    qed
  qed
  with d show ?thesis by (simp add: collected_ok_def list_all_iff)
qed

lemma add_keeps:
  "country (add c pc px py) = country c \<and> matcher (add c pc px py) = matcher c \<and>
   (collected_ok (collected c) \<longrightarrow> collected_ok (collected (add c pc px py)))"
  by (auto simp: add_def Let_def collected_ok_iadd split: option.splits)


section \<open>The merge of an external file\<close>

lemma to_float_Inr_iff:
  "to_float f v mx = Inr r \<longleftrightarrow> (\<exists>s. v = Some s \<and> f s = Some (Finite r) \<and> - mx < r \<and> r < mx)"
  by (auto simp: to_float_def split: option.splits pyfloat.splits)

lemma to_float_cases:
  obtains r where "to_float f v mx = Inr r"
    | "to_float f v mx = Inl ValueError"
    | "v = None" "to_float f v mx = Inl TypeError"
  by (cases "to_float f v mx")
     (auto simp: to_float_def split: option.splits pyfloat.splits if_splits)

lemma call_normalize_postcode_raises:
  "call_normalize_postcode an field = Inl e \<Longrightarrow> field = None"
  by (cases field) (simp_all add: call_normalize_postcode_def)

text \<open>The ways through the body of the loop.\<close>

lemma external_rows_bad_format:
  assumes "row ''postcode'' = None \<or> row ''lat'' = None \<or> row ''lon'' = None"
  shows "external_rows f an cc (row # reader) col lg = Inr (col, lg @ [Warning_bad_format cc])"
  unfolding external_rows.simps if_P[OF assms] ..

lemma external_rows_analyzer_raises:
  assumes "\<not> (row ''postcode'' = None \<or> row ''lat'' = None \<or> row ''lon'' = None)"
      and "call_normalize_postcode an (the (row ''postcode'')) = Inl e"
  shows "external_rows f an cc (row # reader) col lg = Inl e"
  unfolding external_rows.simps if_not_P[OF assms(1)] assms(2) by simp

lemma external_rows_present:
  assumes "\<not> (row ''postcode'' = None \<or> row ''lat'' = None \<or> row ''lon'' = None)"
      and "call_normalize_postcode an (the (row ''postcode'')) = Inr pc"
      and "map_of col pc \<noteq> None"
  shows "external_rows f an cc (row # reader) col lg = external_rows f an cc reader col lg"
  unfolding external_rows.simps if_not_P[OF assms(1)] assms(2) sum.case if_not_P[OF assms(3)] ..

lemma external_rows_bad_lon:
  assumes "\<not> (row ''postcode'' = None \<or> row ''lat'' = None \<or> row ''lon'' = None)"
      and "call_normalize_postcode an (the (row ''postcode'')) = Inr pc"
      and "map_of col pc = None"
      and "to_float f (the (row ''lon'')) 180 = Inl ValueError"
  shows "external_rows f an cc (row # reader) col lg =
         external_rows f an cc reader col
           (lg @ [Warning_bad_coordinates (the (row ''lat'')) (the (row ''lon'')) cc])"
  unfolding external_rows.simps if_not_P[OF assms(1)] assms(2) using assms(3,4) by simp

lemma external_rows_lon_raises:
  assumes "\<not> (row ''postcode'' = None \<or> row ''lat'' = None \<or> row ''lon'' = None)"
      and "call_normalize_postcode an (the (row ''postcode'')) = Inr pc"
      and "map_of col pc = None"
      and "to_float f (the (row ''lon'')) 180 = Inl TypeError"
  shows "external_rows f an cc (row # reader) col lg = Inl TypeError"
  unfolding external_rows.simps if_not_P[OF assms(1)] assms(2) using assms(3,4) by simp

lemma external_rows_bad_lat:
  assumes "\<not> (row ''postcode'' = None \<or> row ''lat'' = None \<or> row ''lon'' = None)"
      and "call_normalize_postcode an (the (row ''postcode'')) = Inr pc"
      and "map_of col pc = None"
      and "to_float f (the (row ''lon'')) 180 = Inr lon"
      and "to_float f (the (row ''lat'')) 90 = Inl ValueError"
  shows "external_rows f an cc (row # reader) col lg =
         external_rows f an cc reader col
           (lg @ [Warning_bad_coordinates (the (row ''lat'')) (the (row ''lon'')) cc])"
  unfolding external_rows.simps if_not_P[OF assms(1)] assms(2) using assms(3,4,5) by simp

lemma external_rows_lat_raises:
  assumes "\<not> (row ''postcode'' = None \<or> row ''lat'' = None \<or> row ''lon'' = None)"
      and "call_normalize_postcode an (the (row ''postcode'')) = Inr pc"
      and "map_of col pc = None"
      and "to_float f (the (row ''lon'')) 180 = Inr lon"
      and "to_float f (the (row ''lat'')) 90 = Inl TypeError"
  shows "external_rows f an cc (row # reader) col lg = Inl TypeError"
  unfolding external_rows.simps if_not_P[OF assms(1)] assms(2) using assms(3,4,5) by simp

lemma external_rows_fold:
  assumes "\<not> (row ''postcode'' = None \<or> row ''lat'' = None \<or> row ''lon'' = None)"
      and "call_normalize_postcode an (the (row ''postcode'')) = Inr pc"
      and "map_of col pc = None"
      and "to_float f (the (row ''lon'')) 180 = Inr lon"
      and "to_float f (the (row ''lat'')) 90 = Inr lat"
  shows "external_rows f an cc (row # reader) col lg =
         external_rows f an cc reader (collected_iadd col pc (lon, lat)) lg"
  unfolding external_rows.simps if_not_P[OF assms(1)] assms(2) using assms(3,4,5) by simp

lemma map_of_collected_iadd_other:
  "k \<noteq> k' \<Longrightarrow> map_of (collected_iadd col k' p) k = map_of col k"
  by (simp add: collected_iadd_def update_conv')

text \<open>
  The loop either raises, whatever the log holds, and then some row is not complete; or
  it returns, with a dictionary and with additions to the log that do not depend on the
  log. In the second case the dictionary stays well formed and every key that was
  present keeps its accumulator.
\<close>

lemma external_rows_uniform:
  "(\<exists>e. (\<forall>lg. external_rows f an cc rows col lg = Inl e) \<and> \<not> list_all complete_row rows)
   \<or> (\<exists>col' w. (\<forall>lg. external_rows f an cc rows col lg = Inr (col', lg @ w)) \<and>
         (collected_ok col \<longrightarrow> collected_ok col') \<and>
         (\<forall>k a. map_of col k = Some a \<longrightarrow> map_of col' k = Some a) \<and>
         (rows = [] \<longrightarrow> col' = col))"
proof (induction rows arbitrary: col)
  case Nil
  have "\<forall>lg. external_rows f an cc [] col lg = Inr (col, lg @ [])" by simp
  then show ?case by blast
next
  case (Cons row rows)
  let ?W = "Warning_bad_coordinates (the (row ''lat'')) (the (row ''lon'')) cc"
  have go_on: ?case
    if eq: "\<forall>lg. external_rows f an cc (row # rows) col lg = external_rows f an cc rows col1 (lg @ w0)"
      and ok: "collected_ok col \<longrightarrow> collected_ok col1"
      and keep: "\<forall>k a. map_of col k = Some a \<longrightarrow> map_of col1 k = Some a" for col1 w0
  proof -
    from Cons.IH[of col1] consider
      e where "\<forall>lg. external_rows f an cc rows col1 lg = Inl e" "\<not> list_all complete_row rows"
      | col' w where "\<forall>lg. external_rows f an cc rows col1 lg = Inr (col', lg @ w)"
        "collected_ok col1 \<longrightarrow> collected_ok col'"
        "\<forall>k a. map_of col1 k = Some a \<longrightarrow> map_of col' k = Some a"
      by blast
    then show ?thesis
    proof cases
      case 1
      have "\<forall>lg. external_rows f an cc (row # rows) col lg = Inl e" using eq 1(1) by simp
      moreover have "\<not> list_all complete_row (row # rows)" using 1(2) by simp
      ultimately show ?thesis by blast
    next
      case 2
      have "\<forall>lg. external_rows f an cc (row # rows) col lg = Inr (col', lg @ (w0 @ w))"
        using eq 2(1) by simp
      moreover have "collected_ok col \<longrightarrow> collected_ok col'" using ok 2(2) by blast
      moreover have "\<forall>k a. map_of col k = Some a \<longrightarrow> map_of col' k = Some a"
        using keep 2(3) by blast
      ultimately show ?thesis by blast
    qed
  qed
  have stop: ?case
    if "\<forall>lg. external_rows f an cc (row # rows) col lg = Inl e" and "\<not> complete_row row" for e
  proof -
    from that(2) have "\<not> list_all complete_row (row # rows)" by simp
    with that(1) show ?thesis by blast
  qed
  show ?case
  proof (cases "row ''postcode'' = None \<or> row ''lat'' = None \<or> row ''lon'' = None")
    case True
    have "\<forall>lg. external_rows f an cc (row # rows) col lg = Inr (col, lg @ [Warning_bad_format cc])"
      using external_rows_bad_format[OF True] by blast
    then show ?thesis by blast
  next
    case False
    show ?thesis
    proof (cases "call_normalize_postcode an (the (row ''postcode''))")
      case (Inl e)
      from call_normalize_postcode_raises[OF Inl] False have "row ''postcode'' = Some None"
        by auto
      then have "\<not> complete_row row" by (simp add: complete_row_def)
      moreover have "\<forall>lg. external_rows f an cc (row # rows) col lg = Inl e"
        using external_rows_analyzer_raises[OF False Inl] by blast
      ultimately show ?thesis using stop by blast
    next
      case (Inr pc)
      show ?thesis
      proof (cases "map_of col pc = None")
        case present: False
        have "\<forall>lg. external_rows f an cc (row # rows) col lg =
                external_rows f an cc rows col (lg @ [])"
          using external_rows_present[OF False Inr present] by simp
        then show ?thesis by (rule go_on) simp_all
      next
        case True
        show ?thesis
        proof (rule to_float_cases[of f "the (row ''lon'')" 180])
          fix r assume lon: "to_float f (the (row ''lon'')) 180 = Inr r"
          show ?thesis
          proof (rule to_float_cases[of f "the (row ''lat'')" 90])
            fix r' assume lat: "to_float f (the (row ''lat'')) 90 = Inr r'"
            have e: "\<forall>lg. external_rows f an cc (row # rows) col lg =
                   external_rows f an cc rows (collected_iadd col pc (r, r')) (lg @ [])"
              using external_rows_fold[OF False Inr True lon lat] by simp
            have o: "collected_ok col \<longrightarrow> collected_ok (collected_iadd col pc (r, r'))"
              by (simp add: collected_ok_iadd)
            have "\<forall>k a. map_of col k = Some a \<longrightarrow>
                             map_of (collected_iadd col pc (r, r')) k = Some a"
            proof (intro allI impI)
              fix k a assume ka: "map_of col k = Some a"
              with True have "k \<noteq> pc" by auto
              with ka show "map_of (collected_iadd col pc (r, r')) k = Some a"
                by (simp add: map_of_collected_iadd_other)
            qed
            with e o show ?thesis by (rule go_on)
          next
            assume lat: "to_float f (the (row ''lat'')) 90 = Inl ValueError"
            have "\<forall>lg. external_rows f an cc (row # rows) col lg =
                   external_rows f an cc rows col (lg @ [?W])"
              using external_rows_bad_lat[OF False Inr True lon lat] by simp
            then show ?thesis by (rule go_on) simp_all
          next
            assume none: "the (row ''lat'') = None"
              and lat: "to_float f (the (row ''lat'')) 90 = Inl TypeError"
            from none False have "row ''lat'' = Some None" by auto
            then have "\<not> complete_row row" by (simp add: complete_row_def)
            moreover have "\<forall>lg. external_rows f an cc (row # rows) col lg = Inl TypeError"
              using external_rows_lat_raises[OF False Inr True lon lat] by blast
            ultimately show ?thesis using stop by blast
          qed
        next
          assume lon: "to_float f (the (row ''lon'')) 180 = Inl ValueError"
          have "\<forall>lg. external_rows f an cc (row # rows) col lg =
                 external_rows f an cc rows col (lg @ [?W])"
            using external_rows_bad_lon[OF False Inr True lon] by simp
          then show ?thesis by (rule go_on) simp_all
        next
          assume none: "the (row ''lon'') = None"
            and lon: "to_float f (the (row ''lon'')) 180 = Inl TypeError"
          from none False have "row ''lon'' = Some None" by auto
          then have "\<not> complete_row row" by (simp add: complete_row_def)
          moreover have "\<forall>lg. external_rows f an cc (row # rows) col lg = Inl TypeError"
            using external_rows_lon_raises[OF False Inr True lon] by blast
          ultimately show ?thesis using stop by blast
        qed
      qed
    qed
  qed
qed

text \<open>The same for \<open>_update_from_external\<close> as a whole.\<close>

lemma update_from_external_uniform:
  "(\<exists>e. (\<forall>lg. update_from_external f self an dir lg = Inl e) \<and> \<not> complete_files (Some dir))
   \<or> (\<exists>col' w. (\<forall>lg. update_from_external f self an dir lg
                         = Inr (self\<lparr>collected := col'\<rparr>, lg @ w)) \<and>
         (collected_ok (collected self) \<longrightarrow> collected_ok col') \<and>
         (\<forall>k a. map_of (collected self) k = Some a \<longrightarrow> map_of col' k = Some a))"
proof -
  have with_file: ?thesis
    if op: "\<forall>lg. open_external self dir lg = (Some rd, lg @ [Info_using_external fname])"
      and fl: "dir fname = Some rd" for rd fname
  proof -
    from external_rows_uniform[of f an "country self" rd "collected self"] consider
      e where "\<forall>lg. external_rows f an (country self) rd (collected self) lg = Inl e"
        "\<not> list_all complete_row rd"
      | col' w where
        "\<forall>lg. external_rows f an (country self) rd (collected self) lg = Inr (col', lg @ w)"
        "collected_ok (collected self) \<longrightarrow> collected_ok col'"
        "\<forall>k a. map_of (collected self) k = Some a \<longrightarrow> map_of col' k = Some a"
      by blast
    then show ?thesis
    proof cases
      case 1
      have "\<forall>lg. update_from_external f self an dir lg = Inl e"
        using op 1(1) by (simp add: update_from_external_def)
      moreover have "\<not> complete_files (Some dir)"
        using fl 1(2) by (auto simp: complete_files_def)
      ultimately show ?thesis by blast
    next
      case 2
      have "\<forall>lg. update_from_external f self an dir lg =
              Inr (self\<lparr>collected := col'\<rparr>, lg @ (Info_using_external fname # w))"
        using op 2(1) by (simp add: update_from_external_def)
      with 2(2,3) show ?thesis by blast
    qed
  qed
  show ?thesis
  proof (cases "dir (country self @ ''_postcodes.csv'')")
    case (Some rd)
    have "\<forall>lg. open_external self dir lg =
            (Some rd, lg @ [Info_using_external (country self @ ''_postcodes.csv'')])"
      using Some by (simp add: open_external_def)
    then show ?thesis using Some by (rule with_file)
  next
    case None
    show ?thesis
    proof (cases "dir (country self @ ''_postcodes.csv.gz'')")
      case (Some rd)
      have "\<forall>lg. open_external self dir lg =
              (Some rd, lg @ [Info_using_external (country self @ ''_postcodes.csv.gz'')])"
        using None Some by (simp add: open_external_def)
      then show ?thesis using Some by (rule with_file)
    next
      case gz: None
      have "\<forall>lg. update_from_external f self an dir lg
              = Inr (self\<lparr>collected := collected self\<rparr>, lg @ [])"
        using None gz by (simp add: update_from_external_def open_external_def)
      then show ?thesis by blast
    qed
  qed
qed

text \<open>
  Claim C5: a key that the collector holds before the merge keeps its accumulator
  whenever the merge returns, whatever the external file says about that postcode; and
  the merge returns when the rows of the files are complete.
\<close>

theorem external_merge_priority:
  assumes "map_of (collected self) k = Some pcobj"
  shows "(\<forall>self' lg'. update_from_external float_of self analyzer project_dir lg = Inr (self', lg')
            \<longrightarrow> map_of (collected self') k = Some pcobj) \<and>
         (complete_files (Some project_dir) \<longrightarrow>
            (\<exists>self' lg'. update_from_external float_of self analyzer project_dir lg
                           = Inr (self', lg')))"
proof -
  from update_from_external_uniform[of float_of self analyzer project_dir] consider
    e where "\<forall>lg. update_from_external float_of self analyzer project_dir lg = Inl e"
      "\<not> complete_files (Some project_dir)"
    | col' w where
      "\<forall>lg. update_from_external float_of self analyzer project_dir lg
               = Inr (self\<lparr>collected := col'\<rparr>, lg @ w)"
      "\<forall>k a. map_of (collected self) k = Some a \<longrightarrow> map_of col' k = Some a"
    by blast
  then show ?thesis
  proof cases
    case 1
    then show ?thesis by simp
  next
    case 2
    from 2(2) assms have "map_of col' k = Some pcobj" by blast
    with 2(1) show ?thesis by simp
  qed
qed

theorem external_merge_priority_witness:
  "map_of (collected \<lparr>country = ''de'', matcher = (None :: string CountryPostcodeMatcher option),
             collected = [(''10115'', \<lparr>sum_x = 13, sum_y = 52, count = 1\<rparr>)],
             normalization_cache = None\<rparr>) ''10115''
     = Some \<lparr>sum_x = 13, sum_y = 52, count = 1\<rparr>
   \<and> complete_files
        (Some [''de_postcodes.csv'' \<mapsto>
                 [[''postcode'' \<mapsto> Some ''10115'', ''lat'' \<mapsto> Some ''1'', ''lon'' \<mapsto> Some ''1'']]])
   \<and> (\<exists>self' lg'.
         update_from_external (\<lambda>s. Some (Finite 1))
           \<lparr>country = ''de'', matcher = (None :: string CountryPostcodeMatcher option),
             collected = [(''10115'', \<lparr>sum_x = 13, sum_y = 52, count = 1\<rparr>)],
             normalization_cache = None\<rparr>
           \<lparr>normalize_postcode = (\<lambda>s. s), normalize_postcode_of_None = Inl AttributeError\<rparr>
           [''de_postcodes.csv'' \<mapsto>
              [[''postcode'' \<mapsto> Some ''10115'', ''lat'' \<mapsto> Some ''1'', ''lon'' \<mapsto> Some ''1'']]]
           [] = Inr (self', lg')
         \<and> map_of (collected self') ''10115'' = Some \<lparr>sum_x = 13, sum_y = 52, count = 1\<rparr>)"
proof -
  let ?self = "\<lparr>country = ''de'', matcher = (None :: string CountryPostcodeMatcher option),
             collected = [(''10115'', \<lparr>sum_x = 13, sum_y = 52, count = 1\<rparr>)],
             normalization_cache = None\<rparr>"
  let ?dir = "[''de_postcodes.csv'' \<mapsto>
                 [[''postcode'' \<mapsto> Some ''10115'', ''lat'' \<mapsto> Some ''1'', ''lon'' \<mapsto> Some ''1'']]]"
  have h: "map_of (collected ?self) ''10115'' = Some \<lparr>sum_x = 13, sum_y = 52, count = 1\<rparr>"
    by simp
  have c: "complete_files (Some ?dir)"
    by (simp add: complete_files_def complete_row_def)
  from external_merge_priority[OF h, of "\<lambda>s. Some (Finite 1)"
         "\<lparr>normalize_postcode = (\<lambda>s. s), normalize_postcode_of_None = Inl AttributeError\<rparr>"
         ?dir "[]"] c
  have "\<exists>self' lg'.
         update_from_external (\<lambda>s. Some (Finite 1)) ?self
           \<lparr>normalize_postcode = (\<lambda>s. s), normalize_postcode_of_None = Inl AttributeError\<rparr>
           ?dir [] = Inr (self', lg')
         \<and> map_of (collected self') ''10115'' = Some \<lparr>sum_x = 13, sum_y = 52, count = 1\<rparr>"
    by blast
  with h c show ?thesis by blast
qed

subsection \<open>Validation of the coordinates\<close>

text \<open>
  \<open>_to_float\<close> accepts the longitude exactly when the field is a string that \<open>float()\<close>
  parses to a finite number strictly between -180 and 180, and the latitude exactly when
  strictly between -90 and 90; 180, -180, 90 and -90 are rejected and 179.999999 is
  accepted. For a row whose three fields are strings and whose postcode is not collected
  yet, the loop folds the point in when both coordinates are accepted, and otherwise
  logs the warning, leaves the dictionary as it is and goes on with the rows that
  follow.
\<close>

lemma external_coordinate_validation:
  "(to_float float_of lon 180 = Inr x \<longleftrightarrow>
      (\<exists>s. lon = Some s \<and> float_of s = Some (Finite x) \<and> - 180 < x \<and> x < 180)) \<and>
   (to_float float_of lat 90 = Inr y \<longleftrightarrow>
      (\<exists>s. lat = Some s \<and> float_of s = Some (Finite y) \<and> - 90 < y \<and> y < 90)) \<and>
   (float_of s1 = Some (Finite 180) \<longrightarrow> to_float float_of (Some s1) 180 = Inl ValueError) \<and>
   (float_of s2 = Some (Finite (- 180)) \<longrightarrow> to_float float_of (Some s2) 180 = Inl ValueError) \<and>
   (float_of s3 = Some (Finite 90) \<longrightarrow> to_float float_of (Some s3) 90 = Inl ValueError) \<and>
   (float_of s4 = Some (Finite (- 90)) \<longrightarrow> to_float float_of (Some s4) 90 = Inl ValueError) \<and>
   (float_of s5 = Some (Finite (179999999 / 1000000)) \<longrightarrow>
      to_float float_of (Some s5) 180 = Inr (179999999 / 1000000)) \<and>
   (row ''postcode'' = Some (Some p) \<and> row ''lat'' = Some (Some la) \<and>
    row ''lon'' = Some (Some lo) \<and> map_of col (normalize_postcode analyzer p) = None \<longrightarrow>
      external_rows float_of analyzer cc (row # reader) col lg =
        (if (\<exists>vx. to_float float_of (Some lo) 180 = Inr vx) \<and>
            (\<exists>vy. to_float float_of (Some la) 90 = Inr vy)
         then external_rows float_of analyzer cc reader
                (collected_iadd col (normalize_postcode analyzer p)
                   (projr (to_float float_of (Some lo) 180),
                    projr (to_float float_of (Some la) 90))) lg
         else external_rows float_of analyzer cc reader col
                (lg @ [Warning_bad_coordinates (Some la) (Some lo) cc])))"
proof -
  have row_part: "external_rows float_of analyzer cc (row # reader) col lg =
        (if (\<exists>vx. to_float float_of (Some lo) 180 = Inr vx) \<and>
            (\<exists>vy. to_float float_of (Some la) 90 = Inr vy)
         then external_rows float_of analyzer cc reader
                (collected_iadd col (normalize_postcode analyzer p)
                   (projr (to_float float_of (Some lo) 180),
                    projr (to_float float_of (Some la) 90))) lg
         else external_rows float_of analyzer cc reader col
                (lg @ [Warning_bad_coordinates (Some la) (Some lo) cc]))"
    if cols: "row ''postcode'' = Some (Some p)" "row ''lat'' = Some (Some la)"
        "row ''lon'' = Some (Some lo)"
      and new: "map_of col (normalize_postcode analyzer p) = None"
  proof -
    have c: "\<not> (row ''postcode'' = None \<or> row ''lat'' = None \<or> row ''lon'' = None)"
      using cols by simp
    have n: "call_normalize_postcode analyzer (the (row ''postcode''))
               = Inr (normalize_postcode analyzer p)"
      using cols by (simp add: call_normalize_postcode_def)
    have lo: "the (row ''lon'') = Some lo" and la: "the (row ''lat'') = Some la"
      using cols by simp_all
    show ?thesis
    proof (rule to_float_cases[of float_of "Some lo" 180])
      fix vx assume lon: "to_float float_of (Some lo) 180 = Inr vx"
      show ?thesis
      proof (rule to_float_cases[of float_of "Some la" 90])
        fix vy assume lat: "to_float float_of (Some la) 90 = Inr vy"
        from external_rows_fold[OF c n new, of float_of vx vy cc reader lg] lon lat lo la
        show ?thesis by simp
      next
        assume lat: "to_float float_of (Some la) 90 = Inl ValueError"
        from external_rows_bad_lat[OF c n new, of float_of vx cc reader lg] lon lat lo la
        show ?thesis by simp
      next
        assume "Some la = None"
        then show ?thesis by simp
      qed
    next
      assume lon: "to_float float_of (Some lo) 180 = Inl ValueError"
      from external_rows_bad_lon[OF c n new, of float_of cc reader lg] lon lo la
      show ?thesis by simp
    next
      assume "Some lo = None"
      then show ?thesis by simp
    qed
  qed
  have vals:
    "(float_of s1 = Some (Finite 180) \<longrightarrow> to_float float_of (Some s1) 180 = Inl ValueError) \<and>
     (float_of s2 = Some (Finite (- 180)) \<longrightarrow> to_float float_of (Some s2) 180 = Inl ValueError) \<and>
     (float_of s3 = Some (Finite 90) \<longrightarrow> to_float float_of (Some s3) 90 = Inl ValueError) \<and>
     (float_of s4 = Some (Finite (- 90)) \<longrightarrow> to_float float_of (Some s4) 90 = Inl ValueError) \<and>
     (float_of s5 = Some (Finite (179999999 / 1000000)) \<longrightarrow>
        to_float float_of (Some s5) 180 = Inr (179999999 / 1000000))"
    by (simp add: to_float_def)
  have iffs:
    "(to_float float_of lon 180 = Inr x \<longleftrightarrow>
        (\<exists>s. lon = Some s \<and> float_of s = Some (Finite x) \<and> - 180 < x \<and> x < 180)) \<and>
     (to_float float_of lat 90 = Inr y \<longleftrightarrow>
        (\<exists>s. lat = Some s \<and> float_of s = Some (Finite y) \<and> - 90 < y \<and> y < 90))"
    by (simp only: to_float_Inr_iff simp_thms)
  from row_part vals iffs show ?thesis by blast
qed

text \<open>
  Claim C7: a coordinate that does not parse or is out of range makes the loop skip
  that row only, and the rows that follow are still read. The source catches
  \<open>ValueError\<close> alone around the conversion. A line with fewer fields than the header
  gives a row whose last fields are \<open>None\<close>, \<open>float(None)\<close> raises \<open>TypeError\<close>, and
  the merge ends with that error: here the file of country de has the header postcode,
  lat, lon, a first line without the longitude and a second, complete line, which is
  never read.
\<close>

theorem short_line_aborts_merge:
  "update_from_external
     (\<lambda>s. if s = ''52.5'' then Some (Finite (105 / 2))
           else if s = ''13.4'' then Some (Finite (67 / 5)) else None)
     (PostcodeCollector_init ''de'' (None :: string CountryPostcodeMatcher option))
     \<lparr>normalize_postcode = (\<lambda>s. s), normalize_postcode_of_None = Inl AttributeError\<rparr>
     [''de_postcodes.csv'' \<mapsto>
        [[''postcode'' \<mapsto> Some ''10115'', ''lat'' \<mapsto> Some ''52.5'', ''lon'' \<mapsto> None],
         [''postcode'' \<mapsto> Some ''10117'', ''lat'' \<mapsto> Some ''52.5'', ''lon'' \<mapsto> Some ''13.4'']]]
     []
   = Inl TypeError"
  by (simp add: update_from_external_def open_external_def PostcodeCollector_init_def
        call_normalize_postcode_def to_float_def)

text \<open>Without the short line the second line is read and its point folded in.\<close>

lemma complete_line_is_folded:
  "update_from_external
     (\<lambda>s. if s = ''52.5'' then Some (Finite (105 / 2))
           else if s = ''13.4'' then Some (Finite (67 / 5)) else None)
     (PostcodeCollector_init ''de'' (None :: string CountryPostcodeMatcher option))
     \<lparr>normalize_postcode = (\<lambda>s. s), normalize_postcode_of_None = Inl AttributeError\<rparr>
     [''de_postcodes.csv'' \<mapsto>
        [[''postcode'' \<mapsto> Some ''10117'', ''lat'' \<mapsto> Some ''52.5'', ''lon'' \<mapsto> Some ''13.4'']]]
     []
   = Inr (\<lparr>country = ''de'', matcher = None,
            collected = [(''10117'', \<lparr>sum_x = 67 / 5, sum_y = 105 / 2, count = 1\<rparr>)],
            normalization_cache = None\<rparr>,
          [Info_using_external ''de_postcodes.csv''])"
  by (simp add: update_from_external_def open_external_def PostcodeCollector_init_def
        call_normalize_postcode_def to_float_def collected_iadd_def iadd_def
        PointsCentroid_init_def)

subsection \<open>A file without a required column\<close>




section \<open>The diff against the stored table\<close>

text \<open>
  Claim C2: a stored row whose postcode is collected goes to to-update when a stored
  coordinate differs from the centroid by more than the tolerance in either direction.
  The test of \<open>_compute_changes\<close> subtracts the centroid from the stored coordinate and
  takes no absolute value. Here the stored point is (13, 52) and the centroid is
  (13.5, 52): the x coordinates differ by half a degree, and to-update is empty.
\<close>

theorem tolerance_is_one_sided:
  "compute_changes
     \<lparr>country = ''de'', matcher = (None :: string CountryPostcodeMatcher option),
      collected = [(''10115'', \<lparr>sum_x = 27 / 2, sum_y = 52, count = 1\<rparr>)],
      normalization_cache = None\<rparr>
     \<lparr>location_postcode =
        [\<lparr>place_id = 1, indexed_status = 0, country_code = ''de'', postcode = ''10115'',
          geometry = (13, 52)\<rparr>],
      seq_place = 1, placex_postcodes = [], executed = []\<rparr>
   = Inr (\<lparr>country = ''de'', matcher = None, collected = [], normalization_cache = None\<rparr>,
          [], [], [])"
  by (simp add: compute_changes_def select_postcodes_def centroid_def)

subsection \<open>The loop over the stored rows\<close>


lemma map_of_delete_other: "k \<noteq> k' \<Longrightarrow> map_of (AList.delete k' col) k = map_of col k"
  by (simp add: delete_conv')

lemma settled_delete: "fst row \<noteq> k \<Longrightarrow> settled (AList.delete k col) row = settled col row"
  by (simp add: settled_def map_of_delete_other)

lemma centroid_at_delete: "fst row \<noteq> k \<Longrightarrow> centroid_at (AList.delete k col) row = centroid_at col row"
  by (simp add: centroid_at_def map_of_delete_other)

lemma collected_ok_delete: "collected_ok col \<Longrightarrow> collected_ok (AList.delete k col)"
  by (auto simp: collected_ok_def AList.delete_eq distinct_map_filter list_all_iff)

lemma collected_ok_lookup:
  "collected_ok col \<Longrightarrow> map_of col k = Some a \<Longrightarrow> 0 < count a"
  by (auto simp: collected_ok_def list_all_iff dest!: map_of_SomeD)

lemma delete_delete_filter:
  "filter (\<lambda>kv. fst kv \<notin> K) (AList.delete k col) = filter (\<lambda>kv. fst kv \<notin> insert k K) col"
  by (induction col) auto

lemma keys_delete: "fst ` set (AList.delete k col) = fst ` set col - {k}"
  by (auto simp: AList.delete_eq)

lemma map_of_eq_None_keys: "map_of col k = None \<longleftrightarrow> k \<notin> fst ` set col"
  by (simp add: map_of_eq_None_iff)

lemma set_aux1: "pc \<notin> A \<Longrightarrow> pc \<in> C \<Longrightarrow> A - (C - {pc}) = insert pc A - C"
  by auto

lemma set_aux2: "pc \<notin> C \<Longrightarrow> insert pc (A - (C - {pc})) = insert pc A - C"
  by auto

lemma scan_stored_spec:
  assumes "distinct (map fst cur)" "collected_ok col"
  shows "\<exists>upd' del'.
      scan_stored cur col upd del =
        Inr (filter (\<lambda>kv. fst kv \<notin> fst ` set cur) col, upd @ upd', del @ del') \<and>
      set del' = fst ` set cur - fst ` set col \<and>
      (\<forall>u \<in> set upd'. snd (snd u) \<in> fst ` set cur \<and>
                        centroid_at col (snd (snd u), fst u, fst (snd u))) \<and>
      (\<forall>row \<in> set cur. fst row \<in> fst ` set col \<longrightarrow> fst row \<notin> (snd \<circ> snd) ` set upd'
                        \<longrightarrow> settled col row)"
  using assms
proof (induction cur arbitrary: col upd del)
  case Nil
  then show ?case by simp
next
  case (Cons r cur)
  obtain pc sx sy where r: "r = (pc, sx, sy)" by (cases r) auto
  let ?col1 = "AList.delete pc col"
  have dist: "distinct (map fst cur)" and notin: "pc \<notin> fst ` set cur"
    using Cons.prems(1) r by auto
  have ok1: "collected_ok ?col1" using Cons.prems(2) by (rule collected_ok_delete)
  have conv_c: "centroid_at ?col1 (snd (snd u), fst u, fst (snd u)) \<Longrightarrow> snd (snd u) \<in> fst ` set cur \<Longrightarrow>
      centroid_at col (snd (snd u), fst u, fst (snd u))" for u
    using notin by (subst (asm) centroid_at_delete) auto
  have conv_s: "row \<in> set cur \<Longrightarrow> settled ?col1 row = settled col row" for row
    using notin by (intro settled_delete) auto
  have keys1: "row \<in> set cur \<Longrightarrow> (fst row \<in> fst ` set ?col1) = (fst row \<in> fst ` set col)" for row
    using notin by (auto simp: keys_delete)
  show ?case
  proof (cases "map_of col pc")
    case None
    from Cons.IH[OF dist ok1, of upd "del @ [pc]"] obtain upd' del' where
      ih: "scan_stored cur ?col1 upd (del @ [pc]) =
            Inr (filter (\<lambda>kv. fst kv \<notin> fst ` set cur) ?col1, upd @ upd', (del @ [pc]) @ del')"
        "set del' = fst ` set cur - fst ` set ?col1"
        "\<forall>u \<in> set upd'. snd (snd u) \<in> fst ` set cur \<and>
                        centroid_at ?col1 (snd (snd u), fst u, fst (snd u))"
        "\<forall>row \<in> set cur. fst row \<in> fst ` set ?col1 \<longrightarrow> fst row \<notin> (snd \<circ> snd) ` set upd'
                        \<longrightarrow> settled ?col1 row"
      by blast
    have pcnot: "pc \<notin> fst ` set col" using None by (simp add: map_of_eq_None_keys)
    have 1: "scan_stored (r # cur) col upd del =
        Inr (filter (\<lambda>kv. fst kv \<notin> fst ` set (r # cur)) col, upd @ upd', del @ (pc # del'))"
      using ih(1) None r by (simp add: delete_delete_filter)
    have 2: "set (pc # del') = fst ` set (r # cur) - fst ` set col"
    proof -
      have "fst ` set (r # cur) = insert pc (fst ` set cur)" using r by simp
      moreover have "set del' = fst ` set cur - (fst ` set col - {pc})"
        using ih(2) by (simp only: keys_delete)
      ultimately show ?thesis using set_aux2[OF pcnot, of "fst ` set cur"] by (simp only: list.set)
    qed
    have 3: "\<forall>u \<in> set upd'. snd (snd u) \<in> fst ` set (r # cur) \<and>
                        centroid_at col (snd (snd u), fst u, fst (snd u))"
      using ih(3) conv_c by auto
    have 4: "\<forall>row \<in> set (r # cur). fst row \<in> fst ` set col \<longrightarrow> fst row \<notin> (snd \<circ> snd) ` set upd'
                        \<longrightarrow> settled col row"
      using ih(4) conv_s keys1 pcnot r by auto
    from 1 2 3 4 show ?thesis by blast
  next
    case (Some a)
    have cnt: "0 < count a" using Cons.prems(2) Some by (rule collected_ok_lookup)
    define new where "new = (sum_x a / real (count a), sum_y a / real (count a))"
    have cen: "centroid a = Inr new" using cnt by (simp add: centroid_def new_def)
    define mv where "mv \<longleftrightarrow> sx - fst new > 1 / 10000000 \<or> sy - snd new > 1 / 10000000"
    define u0 where "u0 = (if mv then [(fst new, snd new, pc)] else [])"
    from Cons.IH[OF dist ok1, of "upd @ u0" del] obtain upd' del' where
      ih: "scan_stored cur ?col1 (upd @ u0) del =
            Inr (filter (\<lambda>kv. fst kv \<notin> fst ` set cur) ?col1, (upd @ u0) @ upd', del @ del')"
        "set del' = fst ` set cur - fst ` set ?col1"
        "\<forall>u \<in> set upd'. snd (snd u) \<in> fst ` set cur \<and>
                        centroid_at ?col1 (snd (snd u), fst u, fst (snd u))"
        "\<forall>row \<in> set cur. fst row \<in> fst ` set ?col1 \<longrightarrow> fst row \<notin> (snd \<circ> snd) ` set upd'
                        \<longrightarrow> settled ?col1 row"
      by blast
    have pcin: "pc \<in> fst ` set col" using Some by (metis map_of_eq_None_keys option.distinct(1))
    have step: "scan_stored (r # cur) col upd del = scan_stored cur ?col1 (upd @ u0) del"
      using Some r cen by (cases mv) (simp_all add: u0_def mv_def)
    have 1: "scan_stored (r # cur) col upd del =
        Inr (filter (\<lambda>kv. fst kv \<notin> fst ` set (r # cur)) col, upd @ (u0 @ upd'), del @ del')"
      unfolding step using ih(1) r by (simp add: delete_delete_filter)
    have 2: "set del' = fst ` set (r # cur) - fst ` set col"
    proof -
      have "fst ` set (r # cur) = insert pc (fst ` set cur)" using r by simp
      moreover have "set del' = fst ` set cur - (fst ` set col - {pc})"
        using ih(2) by (simp only: keys_delete)
      ultimately show ?thesis using set_aux1[OF notin pcin] by (simp only:)
    qed
    have u0c: "\<forall>u \<in> set u0. snd (snd u) \<in> fst ` set (r # cur) \<and>
                        centroid_at col (snd (snd u), fst u, fst (snd u))"
      using Some cen r by (auto simp: u0_def centroid_at_def)
    have 3: "\<forall>u \<in> set (u0 @ upd'). snd (snd u) \<in> fst ` set (r # cur) \<and>
                        centroid_at col (snd (snd u), fst u, fst (snd u))"
    proof
      fix u assume "u \<in> set (u0 @ upd')"
      then consider "u \<in> set u0" | "u \<in> set upd'" by auto
      then show "snd (snd u) \<in> fst ` set (r # cur) \<and>
                        centroid_at col (snd (snd u), fst u, fst (snd u))"
      proof cases
        case 1 with u0c show ?thesis by blast
      next
        case 2
        with ih(3) have a: "snd (snd u) \<in> fst ` set cur"
          and b: "centroid_at ?col1 (snd (snd u), fst u, fst (snd u))" by blast+
        from conv_c[OF b a] a show ?thesis by simp
      qed
    qed
    have r_settled: "fst r \<notin> (snd \<circ> snd) ` set (u0 @ upd') \<Longrightarrow> settled col r"
      using Some cen r by (auto simp: u0_def settled_def mv_def split: if_splits)
    have 4: "\<forall>row \<in> set (r # cur). fst row \<in> fst ` set col \<longrightarrow> fst row \<notin> (snd \<circ> snd) ` set (u0 @ upd')
                        \<longrightarrow> settled col row"
      using ih(4) conv_s keys1 r_settled by auto
    from 1 2 3 4 show ?thesis by blast
  qed
qed

subsection \<open>The three buckets\<close>

lemma items_centroids_spec:
  assumes "collected_ok col"
  shows "\<exists>to_add. items_centroids col = Inr to_add \<and> map fst to_add = map fst col \<and>
           (\<forall>row \<in> set to_add. centroid_at col row)"
  using assms
proof (induction col)
  case Nil
  then show ?case by simp
next
  case (Cons kv kvs)
  obtain k v where kv: "kv = (k, v)" by (cases kv)
  from Cons.prems kv have ok: "collected_ok kvs" and cnt: "0 < count v"
    and fresh: "k \<notin> fst ` set kvs"
    by (auto simp: collected_ok_def)
  from Cons.IH[OF ok] obtain rest where
    rest: "items_centroids kvs = Inr rest" "map fst rest = map fst kvs"
      "\<forall>row \<in> set rest. centroid_at kvs row" by blast
  define c where "c = (sum_x v / real (count v), sum_y v / real (count v))"
  have cen: "centroid v = Inr c" using cnt by (simp add: centroid_def c_def)
  have 1: "items_centroids (kv # kvs) = Inr ((k, fst c, snd c) # rest)"
    using kv cen rest(1) by simp
  have 2: "map fst ((k, fst c, snd c) # rest) = map fst (kv # kvs)"
    using kv rest(2) by simp
  have 3: "\<forall>row \<in> set ((k, fst c, snd c) # rest). centroid_at (kv # kvs) row"
  proof
    fix row assume "row \<in> set ((k, fst c, snd c) # rest)"
    then consider "row = (k, fst c, snd c)" | "row \<in> set rest" by auto
    then show "centroid_at (kv # kvs) row"
    proof cases
      case 1
      then show ?thesis using kv cen by (simp add: centroid_at_def)
    next
      case 2
      then have "fst row \<in> set (map fst rest)" by simp
      then have "fst row \<noteq> k" using fresh rest(2) by auto
      moreover have "centroid_at kvs row" using rest(3) 2 by blast
      ultimately show ?thesis using kv by (simp add: centroid_at_def)
    qed
  qed
  from 1 2 3 show ?case by blast
qed

lemma centroid_at_in_keys:
  assumes "centroid_at col row"
  shows "fst row \<in> fst ` set col"
proof -
  from assms have "map_of col (fst row) \<noteq> None"
    by (auto simp: centroid_at_def split: option.splits)
  then show ?thesis by (simp add: map_of_eq_None_keys)
qed

lemma keys_filter_notin:
  "fst ` set (filter (\<lambda>kv. fst kv \<notin> K) col) = fst ` set col - K"
  by auto

text \<open>What \<open>_compute_changes\<close> returns on a table with one row for each postcode.\<close>

lemma compute_changes_spec:
  assumes "distinct (map fst (select_postcodes conn (country self)))"
      and "collected_ok (collected self)"
  shows "\<exists>to_add to_delete to_update.
     compute_changes self conn = Inr (self\<lparr>collected := []\<rparr>, to_add, to_delete, to_update) \<and>
     items_centroids (filter (\<lambda>kv. fst kv \<notin> fst ` set (select_postcodes conn (country self)))
                        (collected self)) = Inr to_add \<and>
     map fst to_add = map fst (filter (\<lambda>kv. fst kv \<notin> fst ` set (select_postcodes conn (country self)))
                        (collected self)) \<and>
     (\<forall>row \<in> set to_add. centroid_at (collected self) row) \<and>
     set to_delete = fst ` set (select_postcodes conn (country self)) - fst ` set (collected self) \<and>
     (\<forall>u \<in> set to_update. snd (snd u) \<in> fst ` set (select_postcodes conn (country self)) \<and>
                        centroid_at (collected self) (snd (snd u), fst u, fst (snd u))) \<and>
     (\<forall>row \<in> set (select_postcodes conn (country self)).
         fst row \<in> fst ` set (collected self) \<longrightarrow> fst row \<notin> (snd \<circ> snd) ` set to_update
                        \<longrightarrow> settled (collected self) row)"
proof -
  let ?cur = "select_postcodes conn (country self)"
  let ?col = "collected self"
  let ?rest = "filter (\<lambda>kv. fst kv \<notin> fst ` set ?cur) ?col"
  from scan_stored_spec[OF assms, of "[]" "[]"] obtain upd del where
    scan: "scan_stored ?cur ?col [] [] = Inr (?rest, upd, del)"
    and del: "set del = fst ` set ?cur - fst ` set ?col"
    and upd: "\<forall>u \<in> set upd. snd (snd u) \<in> fst ` set ?cur \<and>
                        centroid_at ?col (snd (snd u), fst u, fst (snd u))"
    and kept: "\<forall>row \<in> set ?cur. fst row \<in> fst ` set ?col \<longrightarrow> fst row \<notin> (snd \<circ> snd) ` set upd
                        \<longrightarrow> settled ?col row"
    unfolding append_Nil by blast
  have ok_rest: "collected_ok ?rest"
    using assms(2) by (auto simp: collected_ok_def distinct_map_filter list_all_iff)
  from items_centroids_spec[OF ok_rest] obtain to_add where
    add: "items_centroids ?rest = Inr to_add" "map fst to_add = map fst ?rest"
      "\<forall>row \<in> set to_add. centroid_at ?rest row" by blast
  have add_col: "\<forall>row \<in> set to_add. centroid_at ?col row"
  proof
    fix row assume r: "row \<in> set to_add"
    with add(3) have c: "centroid_at ?rest row" by blast
    then obtain a where a: "map_of ?rest (fst row) = Some a" "centroid a = Inr (snd row)"
      by (auto simp: centroid_at_def split: option.splits)
    from a(1) have "(fst row, a) \<in> set ?col" by (auto dest: map_of_SomeD)
    moreover have "distinct (map fst ?col)" using assms(2) by (simp add: collected_ok_def)
    ultimately have "map_of ?col (fst row) = Some a" by simp
    with a(2) show "centroid_at ?col row" by (simp add: centroid_at_def)
  qed
  have cc: "compute_changes self conn = Inr (self\<lparr>collected := []\<rparr>, to_add, del, upd)"
    using scan add(1) by (simp add: compute_changes_def)
  show ?thesis
    apply (rule exI[of _ to_add])
    apply (rule exI[of _ del])
    apply (rule exI[of _ upd])
    apply (intro conjI)
          apply (fact cc)
         apply (fact add(1))
        apply (fact add(2))
       apply (fact add_col)
      apply (fact del)
     apply (fact upd)
    apply (fact kept)
    done
qed

lemma partition_sets:
  fixes U S F :: "'a set"
  assumes "U \<subseteq> S \<inter> F"
  shows "F - S = F - S \<and> S - F = S - F \<and> U \<subseteq> S \<inter> F \<and>
         (F - S) \<inter> (S - F) = {} \<and> (F - S) \<inter> U = {} \<and> (S - F) \<inter> U = {} \<and>
         (\<forall>pc \<in> S \<union> F.
            (if pc \<in> F - S then 1 else 0) + (if pc \<in> S - F then 1 else 0) +
            (if pc \<in> U then 1 else 0) + (if pc \<in> S \<inter> F - U then 1 else 0) = (1::nat))"
proof -
  have 1: "(F - S) \<inter> (S - F) = {}" by blast
  have 2: "(F - S) \<inter> U = {}" using assms by blast
  have 3: "(S - F) \<inter> U = {}" using assms by blast
  have 4: "(if pc \<in> F - S then 1 else 0) + (if pc \<in> S - F then 1 else 0) +
            (if pc \<in> U then 1 else 0) + (if pc \<in> S \<inter> F - U then 1 else 0) = (1::nat)"
    if "pc \<in> S \<union> F" for pc
  proof (cases "pc \<in> S")
    case s: True
    show ?thesis
    proof (cases "pc \<in> F")
      case True
      with s show ?thesis by (cases "pc \<in> U") simp_all
    next
      case False
      with s assms have "pc \<notin> U" by blast
      with s False show ?thesis by simp
    qed
  next
    case False
    with that assms have "pc \<in> F" "pc \<notin> U" by blast+
    with False show ?thesis by simp
  qed
  from 1 2 3 4 assms show ?thesis by (intro conjI ballI refl)
qed

text \<open>
  Claim C3: when the stored table has one row at most for each postcode of the country,
  the diff returns, the keys of to-add are the collected postcodes that are not stored,
  those of to-delete the stored postcodes that are not collected, those of to-update
  are stored and collected; the three sets of keys are disjoint from one another, and
  every postcode that is stored or collected is in exactly one of to-add, to-delete,
  to-update and unchanged, where unchanged is stored, collected and not in to-update.
\<close>

theorem diff_buckets_partition:
  assumes "distinct (map fst (select_postcodes conn (country self)))"
      and "collected_ok (collected self)"
  shows "\<exists>self' to_add to_delete to_update.
     compute_changes self conn = Inr (self', to_add, to_delete, to_update) \<and>
     (let stored = fst ` set (select_postcodes conn (country self));
          fresh = fst ` set (collected self);
          A = fst ` set to_add;
          D = set to_delete;
          U = (snd \<circ> snd) ` set to_update;
          N = (stored \<inter> fresh) - U
      in A = fresh - stored \<and> D = stored - fresh \<and> U \<subseteq> stored \<inter> fresh \<and>
         A \<inter> D = {} \<and> A \<inter> U = {} \<and> D \<inter> U = {} \<and>
         (\<forall>pc \<in> stored \<union> fresh.
            (if pc \<in> A then 1 else 0) + (if pc \<in> D then 1 else 0) +
            (if pc \<in> U then 1 else 0) + (if pc \<in> N then 1 else 0) = (1::nat)))"
proof -
  let ?stored = "fst ` set (select_postcodes conn (country self))"
  let ?fresh = "fst ` set (collected self)"
  from compute_changes_spec[OF assms] obtain to_add to_delete to_update where
    cc: "compute_changes self conn = Inr (self\<lparr>collected := []\<rparr>, to_add, to_delete, to_update)"
    and keys: "map fst to_add = map fst (filter (\<lambda>kv. fst kv \<notin> ?stored) (collected self))"
    and del: "set to_delete = ?stored - ?fresh"
    and upd: "\<forall>u \<in> set to_update. snd (snd u) \<in> ?stored \<and>
                        centroid_at (collected self) (snd (snd u), fst u, fst (snd u))"
    by blast
  have "fst ` set to_add = set (map fst to_add)" by simp
  also have "\<dots> = fst ` set (filter (\<lambda>kv. fst kv \<notin> ?stored) (collected self))"
    unfolding keys by simp
  also have "\<dots> = ?fresh - ?stored" by (rule keys_filter_notin)
  finally have A: "fst ` set to_add = ?fresh - ?stored" .
  have U: "(snd \<circ> snd) ` set to_update \<subseteq> ?stored \<inter> ?fresh"
  proof
    fix pc assume "pc \<in> (snd \<circ> snd) ` set to_update"
    then obtain u where u: "u \<in> set to_update" "pc = snd (snd u)" by auto
    with upd have "pc \<in> ?stored" "centroid_at (collected self) (pc, fst u, fst (snd u))" by auto
    with centroid_at_in_keys[of "collected self" "(pc, fst u, fst (snd u))"]
    show "pc \<in> ?stored \<inter> ?fresh" by simp
  qed
  show ?thesis
    apply (rule exI[of _ "self\<lparr>collected := []\<rparr>"])
    apply (rule exI[of _ to_add])
    apply (rule exI[of _ to_delete])
    apply (rule exI[of _ to_update])
    apply (rule conjI)
     apply (fact cc)
    unfolding Let_def A del
    apply (rule partition_sets[OF U])
    done
qed

theorem diff_buckets_partition_witness:
  "distinct (map fst (select_postcodes
      \<lparr>location_postcode =
         [\<lparr>place_id = 1, indexed_status = 0, country_code = ''de'', postcode = ''10115'',
           geometry = (13, 52)\<rparr>,
          \<lparr>place_id = 2, indexed_status = 0, country_code = ''de'', postcode = ''10117'',
           geometry = (14, 53)\<rparr>,
          \<lparr>place_id = 3, indexed_status = 0, country_code = ''de'', postcode = ''10119'',
           geometry = (15, 54)\<rparr>,
          \<lparr>place_id = 4, indexed_status = 0, country_code = ''fr'', postcode = ''75001'',
           geometry = (2, 48)\<rparr>],
       seq_place = 4, placex_postcodes = [], executed = []\<rparr>
      (country \<lparr>country = ''de'', matcher = (None :: string CountryPostcodeMatcher option),
         collected = [(''10115'', \<lparr>sum_x = 13, sum_y = 52, count = 1\<rparr>),
                      (''10117'', \<lparr>sum_x = 26, sum_y = 106, count = 2\<rparr>),
                      (''10178'', \<lparr>sum_x = 1, sum_y = 1, count = 1\<rparr>)],
         normalization_cache = None\<rparr>)))
   \<and> compute_changes
        \<lparr>country = ''de'', matcher = (None :: string CountryPostcodeMatcher option),
         collected = [(''10115'', \<lparr>sum_x = 13, sum_y = 52, count = 1\<rparr>),
                      (''10117'', \<lparr>sum_x = 26, sum_y = 106, count = 2\<rparr>),
                      (''10178'', \<lparr>sum_x = 1, sum_y = 1, count = 1\<rparr>)],
         normalization_cache = None\<rparr>
        \<lparr>location_postcode =
         [\<lparr>place_id = 1, indexed_status = 0, country_code = ''de'', postcode = ''10115'',
           geometry = (13, 52)\<rparr>,
          \<lparr>place_id = 2, indexed_status = 0, country_code = ''de'', postcode = ''10117'',
           geometry = (14, 53)\<rparr>,
          \<lparr>place_id = 3, indexed_status = 0, country_code = ''de'', postcode = ''10119'',
           geometry = (15, 54)\<rparr>,
          \<lparr>place_id = 4, indexed_status = 0, country_code = ''fr'', postcode = ''75001'',
           geometry = (2, 48)\<rparr>],
         seq_place = 4, placex_postcodes = [], executed = []\<rparr>
      = Inr (\<lparr>country = ''de'', matcher = None, collected = [], normalization_cache = None\<rparr>,
             [(''10178'', 1, 1)], [''10119''], [(13, 53, ''10117'')])"
  using diff_buckets_partition
    [of "\<lparr>location_postcode =
         [\<lparr>place_id = 1, indexed_status = 0, country_code = ''de'', postcode = ''10115'',
           geometry = (13, 52)\<rparr>,
          \<lparr>place_id = 2, indexed_status = 0, country_code = ''de'', postcode = ''10117'',
           geometry = (14, 53)\<rparr>,
          \<lparr>place_id = 3, indexed_status = 0, country_code = ''de'', postcode = ''10119'',
           geometry = (15, 54)\<rparr>,
          \<lparr>place_id = 4, indexed_status = 0, country_code = ''fr'', postcode = ''75001'',
           geometry = (2, 48)\<rparr>],
         seq_place = 4, placex_postcodes = [], executed = []\<rparr>"
        "\<lparr>country = ''de'', matcher = (None :: string CountryPostcodeMatcher option),
         collected = [(''10115'', \<lparr>sum_x = 13, sum_y = 52, count = 1\<rparr>),
                      (''10117'', \<lparr>sum_x = 26, sum_y = 106, count = 2\<rparr>),
                      (''10178'', \<lparr>sum_x = 1, sum_y = 1, count = 1\<rparr>)],
         normalization_cache = None\<rparr>"]
  by (simp add: select_postcodes_def collected_ok_def compute_changes_def centroid_def
        AList.delete_eq)

subsection \<open>The first statement of a commit\<close>

text \<open>
  The merge at the start of \<open>commit\<close> either raises, whatever the log holds, and then
  the files are not complete; or it returns the collector with a dictionary that does
  not depend on the log.
\<close>

lemma merge_uniform:
  "(\<exists>e. (\<forall>lg. (case project_dir of
                   None \<Rightarrow> Inr (c, lg)
                 | Some d \<Rightarrow> update_from_external f c an d lg) = Inl e) \<and>
         \<not> complete_files project_dir)
   \<or> (\<exists>colm. (collected_ok (collected c) \<longrightarrow> collected_ok colm) \<and>
         (\<forall>lg. \<exists>w. (case project_dir of
                        None \<Rightarrow> Inr (c, lg)
                      | Some d \<Rightarrow> update_from_external f c an d lg)
                     = Inr (c\<lparr>collected := colm\<rparr>, lg @ w)))"
proof (cases project_dir)
  case None
  have "\<forall>lg. \<exists>w. (case project_dir of None \<Rightarrow> Inr (c, lg)
                      | Some d \<Rightarrow> update_from_external f c an d lg)
          = Inr (c\<lparr>collected := collected c\<rparr>, lg @ w)"
    using None by simp
  then show ?thesis by blast
next
  case (Some d)
  from update_from_external_uniform[of f c an d] consider
    e where "\<forall>lg. update_from_external f c an d lg = Inl e" "\<not> complete_files (Some d)"
    | col' w where "\<forall>lg. update_from_external f c an d lg = Inr (c\<lparr>collected := col'\<rparr>, lg @ w)"
      "collected_ok (collected c) \<longrightarrow> collected_ok col'"
    by blast
  then show ?thesis
  proof cases
    case 1
    have "\<forall>lg. (case project_dir of None \<Rightarrow> Inr (c, lg)
                 | Some d \<Rightarrow> update_from_external f c an d lg) = Inl e"
      using Some 1(1) by simp
    with 1(2) Some show ?thesis by blast
  next
    case 2
    have "\<forall>lg. \<exists>w. (case project_dir of None \<Rightarrow> Inr (c, lg)
                      | Some d \<Rightarrow> update_from_external f c an d lg)
          = Inr (c\<lparr>collected := col'\<rparr>, lg @ w)"
      using Some 2(1) by simp
    with 2(2) show ?thesis by blast
  qed
qed

subsection \<open>The statements of a commit, seen through the query\<close>

lemma select_executed [simp]:
  "select_postcodes (conn\<lparr>executed := e\<rparr>) cc = select_postcodes conn cc"
  by (simp add: select_postcodes_def)

lemma select_insert_rows:
  "select_postcodes (insert_rows cc params conn) cc' =
     (if cc' = cc then select_postcodes conn cc' @ params else select_postcodes conn cc')"
proof (induction params arbitrary: conn)
  case Nil
  show ?case by simp
next
  case (Cons p params)
  obtain pc px py where p: "p = (pc, px, py)" by (cases p) auto
  show ?case unfolding p insert_rows.simps Cons.IH
    by (simp add: select_postcodes_def)
qed

lemma select_filter_rows:
  "map (\<lambda>r. (postcode r, fst (geometry r), snd (geometry r)))
     (filter (\<lambda>r. country_code r = cc')
        (filter (\<lambda>r. \<not> (country_code r = cc \<and> postcode r \<in> P)) rows)) =
   (if cc' = cc
    then filter (\<lambda>t. fst t \<notin> P)
           (map (\<lambda>r. (postcode r, fst (geometry r), snd (geometry r)))
              (filter (\<lambda>r. country_code r = cc') rows))
    else map (\<lambda>r. (postcode r, fst (geometry r), snd (geometry r)))
           (filter (\<lambda>r. country_code r = cc') rows))"
  by (induction rows) auto

lemma select_delete_rows:
  "select_postcodes (delete_rows cc pcs conn) cc' =
     (if cc' = cc then filter (\<lambda>r. fst r \<notin> set pcs) (select_postcodes conn cc')
      else select_postcodes conn cc')"
  unfolding select_postcodes_def delete_rows_def
  using select_filter_rows[of cc' cc "set pcs" "location_postcode conn"] by simp

lemma select_map_rows:
  "map (\<lambda>r. (postcode r, fst (geometry r), snd (geometry r)))
     (filter (\<lambda>r. country_code r = cc')
        (map (\<lambda>r. if country_code r = cc \<and> postcode r = pc
                   then r\<lparr>indexed_status := 2, geometry := (px, py)\<rparr> else r) rows)) =
   (if cc' = cc
    then map (\<lambda>t. if fst t = pc then (pc, px, py) else t)
           (map (\<lambda>r. (postcode r, fst (geometry r), snd (geometry r)))
              (filter (\<lambda>r. country_code r = cc') rows))
    else map (\<lambda>r. (postcode r, fst (geometry r), snd (geometry r)))
           (filter (\<lambda>r. country_code r = cc') rows))"
  by (induction rows) auto

lemma select_update_rows:
  "select_postcodes (update_rows cc params conn) cc' =
     (if cc' = cc then update_view params (select_postcodes conn cc')
      else select_postcodes conn cc')"
proof (induction params arbitrary: conn)
  case Nil
  show ?case by simp
next
  case (Cons p params)
  obtain px py pc where p: "p = (px, py, pc)" by (cases p) auto
  have step: "select_postcodes
          (conn\<lparr>location_postcode :=
               map (\<lambda>r. if country_code r = cc \<and> postcode r = pc
                         then r\<lparr>indexed_status := 2, geometry := (px, py)\<rparr> else r)
                 (location_postcode conn)\<rparr>) cc' =
        (if cc' = cc
         then map (\<lambda>t. if fst t = pc then (pc, px, py) else t) (select_postcodes conn cc')
         else select_postcodes conn cc')"
    unfolding select_postcodes_def
    using select_map_rows[of cc' cc pc px py "location_postcode conn"] by simp
  show ?case unfolding p update_rows.simps Cons.IH step by (simp cong: if_cong)
qed

lemma select_apply_changes:
  "select_postcodes (apply_changes cc (to_add, to_delete, to_update) conn) cc =
     update_view to_update
       (filter (\<lambda>r. fst r \<notin> set to_delete) (select_postcodes conn cc @ to_add))"
  by (simp add: apply_changes_def select_insert_rows select_delete_rows select_update_rows)

lemma select_apply_changes_other:
  "cc' \<noteq> cc \<Longrightarrow> select_postcodes (apply_changes cc chg conn) cc' = select_postcodes conn cc'"
  by (simp add: apply_changes_def Let_def select_insert_rows select_delete_rows select_update_rows)




subsection \<open>A second commit finds nothing to do\<close>





section \<open>The driver and the countries that are only stored\<close>

lemma scan_stored_total:
  assumes "collected_ok col"
  shows "\<exists>upd' del'. scan_stored cur col upd del =
           Inr (filter (\<lambda>kv. fst kv \<notin> fst ` set cur) col, upd', del')"
  using assms
proof (induction cur arbitrary: col upd del)
  case Nil
  then show ?case by simp
next
  case (Cons r cur)
  obtain pc sx sy where r: "r = (pc, sx, sy)" by (cases r) auto
  have ok1: "collected_ok (AList.delete pc col)" using Cons.prems by (rule collected_ok_delete)
  show ?case
  proof (cases "map_of col pc")
    case None
    from Cons.IH[OF ok1, of upd "del @ [pc]"] None r show ?thesis
      by (simp add: delete_delete_filter)
  next
    case (Some a)
    have cnt: "0 < count a" using Cons.prems Some by (rule collected_ok_lookup)
    define new where "new = (sum_x a / real (count a), sum_y a / real (count a))"
    have cen: "centroid a = Inr new" using cnt by (simp add: centroid_def new_def)
    define upd1 where "upd1 = (if sx - fst new > 1 / 10000000 \<or> sy - snd new > 1 / 10000000
                  then upd @ [(fst new, snd new, pc)] else upd)"
    have step: "scan_stored (r # cur) col upd del = scan_stored cur (AList.delete pc col) upd1 del"
      unfolding r scan_stored.simps Some upd1_def using cen by simp
    from Cons.IH[OF ok1, of upd1 del] r show ?thesis
      unfolding step by (simp add: delete_delete_filter)
  qed
qed

lemma compute_changes_total:
  assumes "collected_ok (collected m)"
  shows "\<exists>chg. compute_changes m conn = Inr (m\<lparr>collected := []\<rparr>, chg)"
proof -
  let ?cur = "select_postcodes conn (country m)"
  let ?rest = "filter (\<lambda>kv. fst kv \<notin> fst ` set ?cur) (collected m)"
  from scan_stored_total[OF assms, of ?cur "[]" "[]"] obtain upd del where
    scan: "scan_stored ?cur (collected m) [] [] = Inr (?rest, upd, del)" by blast
  have "collected_ok ?rest"
    using assms by (auto simp: collected_ok_def distinct_map_filter list_all_iff)
  from items_centroids_spec[OF this] obtain to_add where
    "items_centroids ?rest = Inr to_add" by blast
  with scan have "compute_changes m conn = Inr (m\<lparr>collected := []\<rparr>, to_add, del, upd)"
    by (simp add: compute_changes_def)
  then show ?thesis by blast
qed

lemma commit_result:
  assumes "collected_ok (collected c0)" and "complete_files pd"
  shows "\<exists>chg w. commit f c0 conn an pd lg =
           Inr (c0\<lparr>collected := []\<rparr>, apply_changes (country c0) chg conn, lg @ w)"
proof -
  from merge_uniform[where project_dir = pd and f = f and an = an and c = c0] assms
  obtain colm w where okm: "collected_ok colm"
    and mrg: "(case pd of None \<Rightarrow> Inr (c0, lg) | Some d \<Rightarrow> update_from_external f c0 an d lg)
          = Inr (c0\<lparr>collected := colm\<rparr>, lg @ w)" by blast
  let ?m = "c0\<lparr>collected := colm\<rparr>"
  have "collected_ok (collected ?m)" using okm by simp
  from compute_changes_total[OF this, of conn] obtain chg where
    chg: "compute_changes ?m conn = Inr (?m\<lparr>collected := []\<rparr>, chg)" by blast
  have "commit f c0 conn an pd lg =
          Inr (c0\<lparr>collected := []\<rparr>, apply_changes (country c0) chg conn,
               lg @ (w @ [Info_processing (country c0) (length (fst chg)) (length (fst (snd chg)))
                        (length (snd (snd chg)))]))"
    unfolding commit_def commit_changes_def mrg using chg by simp
  then show ?thesis by blast
qed

lemma executed_insert_rows: "executed (insert_rows cc params conn) = executed conn"
  by (induction params arbitrary: conn) auto

lemma executed_update_rows: "executed (update_rows cc params conn) = executed conn"
  by (induction params arbitrary: conn) auto

lemma executed_delete_rows: "executed (delete_rows cc pcs conn) = executed conn"
  by (simp add: delete_rows_def)

lemma executed_apply_changes:
  "executed (apply_changes cc (to_add, to_delete, to_update) conn) =
     executed conn @ (if to_add \<noteq> [] then [INSERT cc to_add] else [])
       @ (if to_delete \<noteq> [] then [DELETE cc to_delete] else [])
       @ (if to_update \<noteq> [] then [UPDATE cc to_update] else [])"
  by (simp add: apply_changes_def executed_insert_rows executed_update_rows executed_delete_rows)

lemma executed_apply_changes_other:
  assumes "cc' \<noteq> cc"
  shows "filter (\<lambda>s. statement_country s = cc') (executed (apply_changes cc chg conn)) =
         filter (\<lambda>s. statement_country s = cc') (executed conn)"
proof -
  obtain a d u where chg: "chg = (a, d, u)" by (cases chg) auto
  show ?thesis unfolding chg executed_apply_changes using assms by simp
qed

lemma same_for_refl: "same_for cc conn conn"
  by (simp add: same_for_def)

lemma same_for_trans: "same_for cc a b \<Longrightarrow> same_for cc b c \<Longrightarrow> same_for cc a c"
  by (simp add: same_for_def)

lemma commit_other:
  assumes "collected_ok (collected c0)" and "country c0 \<noteq> cc" and "complete_files pd"
  shows "\<exists>c1 conn1 w. commit f c0 conn an pd lg = Inr (c1, conn1, lg @ w) \<and>
           same_for cc conn conn1"
proof -
  from commit_result[OF assms(1,3), of f conn an lg] obtain chg w where
    c: "commit f c0 conn an pd lg =
           Inr (c0\<lparr>collected := []\<rparr>, apply_changes (country c0) chg conn, lg @ w)" by blast
  have "same_for cc conn (apply_changes (country c0) chg conn)"
    unfolding same_for_def
    using select_apply_changes_other[of cc "country c0" chg conn]
      executed_apply_changes_other[of cc "country c0" chg conn] assms(2) by simp
  with c show ?thesis by blast
qed

lemma stream_rows_None:
  "stream_rows f gm an pd ((c, pc, px, py) # cur) None conn todo lg =
   stream_rows f gm an pd cur (Some (add (PostcodeCollector_init c (gm c)) pc px py)) conn
     (removeAll c todo) lg"
  by simp

lemma stream_rows_same:
  "c = country c0 \<Longrightarrow>
   stream_rows f gm an pd ((c, pc, px, py) # cur) (Some c0) conn todo lg =
   stream_rows f gm an pd cur (Some (add c0 pc px py)) conn todo lg"
  by simp

lemma stream_rows_switch:
  "c \<noteq> country c0 \<Longrightarrow> commit f c0 conn an pd lg = Inr (c1, conn1, lg1) \<Longrightarrow>
   stream_rows f gm an pd ((c, pc, px, py) # cur) (Some c0) conn todo lg =
   stream_rows f gm an pd cur (Some (add (PostcodeCollector_init c (gm c)) pc px py)) conn1
     (removeAll c todo) lg1"
  by simp

lemma open_ok_add_init:
  "c \<noteq> cc \<Longrightarrow> open_ok cc (Some (add (PostcodeCollector_init c mt) pc px py))"
  using add_keeps[of "PostcodeCollector_init c mt" pc px py]
  by (simp add: open_ok_def PostcodeCollector_init_def collected_ok_Nil)

lemma open_ok_add:
  "open_ok cc (Some c0) \<Longrightarrow> open_ok cc (Some (add c0 pc px py))"
  using add_keeps[of c0 pc px py] by (simp add: open_ok_def)

lemma stream_rows_other:
  assumes "cc \<notin> fst ` set cur" and "open_ok cc collector" and "complete_files pd"
  shows "\<exists>collector' conn' todo' w.
           stream_rows f gm an pd cur collector conn todo lg = Inr (collector', conn', todo', lg @ w) \<and>
           same_for cc conn conn' \<and> open_ok cc collector' \<and>
           (cc \<in> set todo \<longrightarrow> cc \<in> set todo') \<and> (distinct todo \<longrightarrow> distinct todo')"
  using assms
proof (induction cur arbitrary: collector conn todo lg)
  case Nil
  have "stream_rows f gm an pd [] collector conn todo lg = Inr (collector, conn, todo, lg @ [])"
    by simp
  with Nil.prems(2) same_for_refl[of cc conn] show ?case by blast
next
  case (Cons r cur)
  obtain c pc px py where r: "r = (c, pc, px, py)" by (cases r) auto
  from Cons.prems(1) r have ne: "c \<noteq> cc" and rest: "cc \<notin> fst ` set cur" by auto
  have keep: "cc \<in> set todo \<longrightarrow> cc \<in> set (removeAll c todo)" using ne by simp
  have dist: "distinct todo \<longrightarrow> distinct (removeAll c todo)" by (simp add: distinct_removeAll)
  show ?case
  proof (cases collector)
    case None
    from Cons.IH[OF rest open_ok_add_init[OF ne] Cons.prems(3),
        of "gm c" pc px py conn "removeAll c todo" lg]
    obtain collector' conn' todo' w where
      ih: "stream_rows f gm an pd cur (Some (add (PostcodeCollector_init c (gm c)) pc px py)) conn
             (removeAll c todo) lg = Inr (collector', conn', todo', lg @ w)"
        "same_for cc conn conn'" "open_ok cc collector'"
        "cc \<in> set (removeAll c todo) \<longrightarrow> cc \<in> set todo'"
        "distinct (removeAll c todo) \<longrightarrow> distinct todo'" by blast
    have "stream_rows f gm an pd (r # cur) collector conn todo lg = Inr (collector', conn', todo', lg @ w)"
      unfolding r None stream_rows_None by (rule ih(1))
    with ih(2,3,4,5) keep dist show ?thesis by blast
  next
    case (Some c0)
    show ?thesis
    proof (cases "c = country c0")
      case True
      from Cons.prems(2) Some have "open_ok cc (Some (add c0 pc px py))"
        by (simp add: open_ok_add)
      from Cons.IH[OF rest this Cons.prems(3), of conn todo lg]
      obtain collector' conn' todo' w where
        ih: "stream_rows f gm an pd cur (Some (add c0 pc px py)) conn todo lg
               = Inr (collector', conn', todo', lg @ w)"
          "same_for cc conn conn'" "open_ok cc collector'"
          "cc \<in> set todo \<longrightarrow> cc \<in> set todo'" "distinct todo \<longrightarrow> distinct todo'" by blast
      have "stream_rows f gm an pd (r # cur) collector conn todo lg = Inr (collector', conn', todo', lg @ w)"
        unfolding r Some stream_rows_same[OF True] by (rule ih(1))
      with ih(2,3,4,5) show ?thesis by blast
    next
      case False
      from Cons.prems(2) Some have ok0: "collected_ok (collected c0)" and ne0: "country c0 \<noteq> cc"
        by (simp_all add: open_ok_def)
      from commit_other[OF ok0 ne0 Cons.prems(3), of f conn an lg] obtain c1 conn1 w1 where
        cm: "commit f c0 conn an pd lg = Inr (c1, conn1, lg @ w1)" "same_for cc conn conn1"
        by blast
      from Cons.IH[OF rest open_ok_add_init[OF ne] Cons.prems(3),
          of "gm c" pc px py conn1 "removeAll c todo" "lg @ w1"]
      obtain collector' conn' todo' w where
        ih: "stream_rows f gm an pd cur (Some (add (PostcodeCollector_init c (gm c)) pc px py)) conn1
               (removeAll c todo) (lg @ w1) = Inr (collector', conn', todo', (lg @ w1) @ w)"
          "same_for cc conn1 conn'" "open_ok cc collector'"
          "cc \<in> set (removeAll c todo) \<longrightarrow> cc \<in> set todo'"
          "distinct (removeAll c todo) \<longrightarrow> distinct todo'" by blast
      have "stream_rows f gm an pd (r # cur) collector conn todo lg
              = Inr (collector', conn', todo', lg @ (w1 @ w))"
        unfolding r Some stream_rows_switch[OF False cm(1)] using ih(1) by simp
      moreover have "same_for cc conn conn'" using cm(2) ih(2) by (rule same_for_trans)
      ultimately show ?thesis using ih(3,4,5) keep dist by blast
    qed
  qed
qed

lemma todo_loop_other:
  assumes "cc \<notin> set todo" and "complete_files pd"
  shows "\<exists>conn' w. todo_loop f gm an pd todo conn lg = Inr (conn', lg @ w) \<and> same_for cc conn conn'"
  using assms(1)
proof (induction todo arbitrary: conn lg)
  case Nil
  have "todo_loop f gm an pd [] conn lg = Inr (conn, lg @ [])" by simp
  with same_for_refl[of cc conn] show ?case by blast
next
  case (Cons c todo)
  from Cons.prems have ne: "c \<noteq> cc" and rest: "cc \<notin> set todo" by auto
  have "collected_ok (collected (PostcodeCollector_init c (gm c)))"
    and "country (PostcodeCollector_init c (gm c)) \<noteq> cc"
    using ne by (simp_all add: PostcodeCollector_init_def collected_ok_Nil)
  from commit_other[OF this assms(2), of f conn an lg] obtain c1 conn1 w1 where
    cm: "commit f (PostcodeCollector_init c (gm c)) conn an pd lg = Inr (c1, conn1, lg @ w1)"
      "same_for cc conn conn1" by blast
  from Cons.IH[OF rest, of conn1 "lg @ w1"] obtain conn' w where
    ih: "todo_loop f gm an pd todo conn1 (lg @ w1) = Inr (conn', (lg @ w1) @ w)"
      "same_for cc conn1 conn'" by blast
  have "todo_loop f gm an pd (c # todo) conn lg = Inr (conn', lg @ (w1 @ w))"
    using cm(1) ih(1) by simp
  moreover have "same_for cc conn conn'" using cm(2) ih(2) by (rule same_for_trans)
  ultimately show ?case by blast
qed

lemma scan_stored_empty:
  "scan_stored cur [] upd del = Inr ([], upd, del @ map fst cur)"
  by (induction cur arbitrary: del) (auto simp: AList.delete_eq)

lemma commit_stale:
  assumes "\<forall>d. pd = Some d \<longrightarrow>
             (\<exists>c l. update_from_external f (PostcodeCollector_init cc mt) an d [] = Inr (c, l)
                    \<and> collected c = [])"
  shows "\<exists>w. commit f (PostcodeCollector_init cc mt) conn an pd lg =
           Inr (PostcodeCollector_init cc mt,
                apply_changes cc ([], map fst (select_postcodes conn cc), []) conn,
                lg @ w @ [Info_processing cc 0 (length (select_postcodes conn cc)) 0])"
proof -
  let ?i = "PostcodeCollector_init cc mt"
  have mrg: "\<exists>w. (case pd of None \<Rightarrow> Inr (?i, lg) | Some d \<Rightarrow> update_from_external f ?i an d lg)
          = Inr (?i, lg @ w)"
  proof (cases pd)
    case None
    then show ?thesis by simp
  next
    case (Some d)
    from assms Some obtain c l where
      r: "update_from_external f ?i an d [] = Inr (c, l)" "collected c = []" by blast
    from update_from_external_uniform[of f ?i an d] r(1) obtain col' w where
      u: "\<forall>lg. update_from_external f ?i an d lg = Inr (?i\<lparr>collected := col'\<rparr>, lg @ w)"
      by force
    with r have "col' = []" by auto
    then have "?i\<lparr>collected := col'\<rparr> = ?i" by (simp add: PostcodeCollector_init_def)
    with u Some show ?thesis by simp
  qed
  then obtain w where m: "(case pd of None \<Rightarrow> Inr (?i, lg)
        | Some d \<Rightarrow> update_from_external f ?i an d lg) = Inr (?i, lg @ w)" by blast
  have cc: "compute_changes ?i conn = Inr (?i, [], map fst (select_postcodes conn cc), [])"
    by (simp add: compute_changes_def PostcodeCollector_init_def scan_stored_empty)
  have cchg: "commit_changes f ?i conn an pd lg =
                Inr (?i, ([], map fst (select_postcodes conn cc), []), lg @ w)"
    unfolding commit_changes_def m by (simp add: cc)
  have "commit f ?i conn an pd lg =
           Inr (?i, apply_changes cc ([], map fst (select_postcodes conn cc), []) conn,
                lg @ w @ [Info_processing cc 0 (length (select_postcodes conn cc)) 0])"
    unfolding commit_def cchg by (simp add: PostcodeCollector_init_def)
  then show ?thesis by blast
qed

lemma apply_changes_stale:
  assumes "select_postcodes conn cc \<noteq> []"
  shows "executed (apply_changes cc ([], map fst (select_postcodes conn cc), []) conn) =
           executed conn @ [DELETE cc (map fst (select_postcodes conn cc))]"
    and "select_postcodes (apply_changes cc ([], map fst (select_postcodes conn cc), []) conn) cc = []"
proof -
  show "executed (apply_changes cc ([], map fst (select_postcodes conn cc), []) conn) =
           executed conn @ [DELETE cc (map fst (select_postcodes conn cc))]"
    unfolding executed_apply_changes using assms by simp
  have "filter (\<lambda>r. fst r \<notin> set (map fst (select_postcodes conn cc))) (select_postcodes conn cc) = []"
    unfolding filter_empty_conv by simp
  then show "select_postcodes (apply_changes cc ([], map fst (select_postcodes conn cc), []) conn) cc = []"
    unfolding select_apply_changes by simp
qed

lemma todo_loop_stale:
  assumes "cc \<in> set todo" and "distinct todo" and "select_postcodes conn cc \<noteq> []"
      and "\<forall>d. pd = Some d \<longrightarrow>
             (\<exists>c l. update_from_external f (PostcodeCollector_init cc (gm cc)) an d [] = Inr (c, l)
                    \<and> collected c = [])"
      and "complete_files pd"
  shows "\<exists>conn' w. todo_loop f gm an pd todo conn lg = Inr (conn', lg @ w) \<and>
           filter (\<lambda>s. statement_country s = cc) (executed conn') =
             filter (\<lambda>s. statement_country s = cc) (executed conn)
               @ [DELETE cc (map fst (select_postcodes conn cc))] \<and>
           select_postcodes conn' cc = [] \<and>
           Info_processing cc 0 (length (select_postcodes conn cc)) 0 \<in> set w"
  using assms(1,2,3)
proof (induction todo arbitrary: conn lg)
  case Nil
  then show ?case by simp
next
  case (Cons c todo)
  show ?case
  proof (cases "c = cc")
    case True
    let ?pcs = "map fst (select_postcodes conn cc)"
    let ?conn1 = "apply_changes cc ([], ?pcs, []) conn"
    let ?info = "Info_processing cc 0 (length (select_postcodes conn cc)) 0"
    from commit_stale[OF assms(4), of conn lg] obtain w1 where
      cm: "commit f (PostcodeCollector_init cc (gm cc)) conn an pd lg =
             Inr (PostcodeCollector_init cc (gm cc), ?conn1, lg @ w1 @ [?info])" by blast
    from Cons.prems(2) True have "cc \<notin> set todo" by simp
    from todo_loop_other[OF this assms(5), of f gm an ?conn1 "lg @ w1 @ [?info]"] obtain conn' w where
      rest: "todo_loop f gm an pd todo ?conn1 (lg @ w1 @ [?info]) = Inr (conn', (lg @ w1 @ [?info]) @ w)"
        "same_for cc ?conn1 conn'" by blast
    have 1: "todo_loop f gm an pd (c # todo) conn lg = Inr (conn', lg @ (w1 @ [?info] @ w))"
      unfolding True todo_loop.simps cm using rest(1) by simp
    have 2: "filter (\<lambda>s. statement_country s = cc) (executed conn') =
             filter (\<lambda>s. statement_country s = cc) (executed conn) @ [DELETE cc ?pcs]"
      using rest(2) apply_changes_stale(1)[OF Cons.prems(3)] by (simp add: same_for_def)
    have 3: "select_postcodes conn' cc = []"
      using rest(2) apply_changes_stale(2)[OF Cons.prems(3)] by (simp add: same_for_def)
    have 4: "?info \<in> set (w1 @ [?info] @ w)" by simp
    from 1 2 3 4 show ?thesis by blast
  next
    case False
    have "collected_ok (collected (PostcodeCollector_init c (gm c)))"
      and "country (PostcodeCollector_init c (gm c)) \<noteq> cc"
      using False by (simp_all add: PostcodeCollector_init_def collected_ok_Nil)
    from commit_other[OF this assms(5), of f conn an lg] obtain c1 conn1 w1 where
      cm: "commit f (PostcodeCollector_init c (gm c)) conn an pd lg = Inr (c1, conn1, lg @ w1)"
        "same_for cc conn conn1" by blast
    have sel: "select_postcodes conn1 cc = select_postcodes conn cc"
      and ex: "filter (\<lambda>s. statement_country s = cc) (executed conn1) =
               filter (\<lambda>s. statement_country s = cc) (executed conn)"
      using cm(2) by (simp_all add: same_for_def)
    from Cons.prems False have "cc \<in> set todo" "distinct todo" "select_postcodes conn1 cc \<noteq> []"
      using sel by auto
    from Cons.IH[OF this, of "lg @ w1"] obtain conn' w where
      ih: "todo_loop f gm an pd todo conn1 (lg @ w1) = Inr (conn', (lg @ w1) @ w)"
        "filter (\<lambda>s. statement_country s = cc) (executed conn') =
             filter (\<lambda>s. statement_country s = cc) (executed conn1)
               @ [DELETE cc (map fst (select_postcodes conn1 cc))]"
        "select_postcodes conn' cc = []"
        "Info_processing cc 0 (length (select_postcodes conn1 cc)) 0 \<in> set w" by blast
    have 1: "todo_loop f gm an pd (c # todo) conn lg = Inr (conn', lg @ (w1 @ w))"
      using cm(1) ih(1) by simp
    have 2: "filter (\<lambda>s. statement_country s = cc) (executed conn') =
             filter (\<lambda>s. statement_country s = cc) (executed conn)
               @ [DELETE cc (map fst (select_postcodes conn cc))]"
      using ih(2) unfolding sel ex .
    have 4: "Info_processing cc 0 (length (select_postcodes conn cc)) 0 \<in> set (w1 @ w)"
      using ih(4) unfolding sel by simp
    from 1 2 ih(3) 4 show ?thesis by blast
  qed
qed

text \<open>
  A country has rows in the stored table and none in the stream from \<open>place\<close> and
  \<open>placex\<close>; the external files, if a project directory is given, are complete, and
  the merge leaves a new collector for that country empty. Then \<open>update_postcodes\<close>
  returns; the statements it executes for that country are one \<open>DELETE\<close> with the
  postcode of every stored row of the country, and no \<open>INSERT\<close> and no \<open>UPDATE\<close>; the
  log line of the commit counts no added, all deleted and no updated postcodes; and no
  row of the country is left.
\<close>

lemma stale_country_is_deleted:
  assumes "cc \<in> set (map country_code (location_postcode conn))"
      and "cc \<notin> fst ` set (placex_postcodes conn)"
      and "\<forall>d. project_dir = Some d \<longrightarrow>
             (\<exists>c l. update_from_external float_of (PostcodeCollector_init cc (get_matcher cc))
                       analyzer d [] = Inr (c, l)
                    \<and> collected c = [])"
      and "complete_files project_dir"
  shows "\<exists>conn' w.
           update_postcodes float_of get_matcher conn project_dir analyzer lg = Inr (conn', lg @ w) \<and>
           filter (\<lambda>s. statement_country s = cc) (executed conn') =
             filter (\<lambda>s. statement_country s = cc) (executed conn)
               @ [DELETE cc (map fst (select_postcodes conn cc))] \<and>
           Info_processing cc 0 (length (select_postcodes conn cc)) 0 \<in> set w \<and>
           select_postcodes conn' cc = []"
proof -
  let ?todo = "remdups (map country_code (location_postcode conn))"
  have t0: "cc \<in> set ?todo" "distinct ?todo" using assms(1) by simp_all
  have ne: "select_postcodes conn cc \<noteq> []"
    using assms(1) by (auto simp: select_postcodes_def filter_empty_conv)
  from stream_rows_other[OF assms(2) _ assms(4), of None float_of get_matcher analyzer conn ?todo lg]
  obtain collector1 conn1 todo1 w1 where
    st: "stream_rows float_of get_matcher analyzer project_dir (placex_postcodes conn) None conn
           ?todo lg = Inr (collector1, conn1, todo1, lg @ w1)"
    and s1: "same_for cc conn conn1" and o1: "open_ok cc collector1"
    and t1: "cc \<in> set todo1" "distinct todo1"
    using t0 by (auto simp: open_ok_def)
  have "\<exists>conn2 w2. (case collector1 of
                      None \<Rightarrow> Inr (conn1, lg @ w1)
                    | Some c \<Rightarrow>
                        (case commit float_of c conn1 analyzer project_dir (lg @ w1) of
                           Inl e \<Rightarrow> Inl e
                         | Inr (c1, conn2, lg2) \<Rightarrow> Inr (conn2, lg2)))
                   = Inr (conn2, (lg @ w1) @ w2) \<and> same_for cc conn1 conn2"
  proof (cases collector1)
    case None
    have "(case collector1 of
                      None \<Rightarrow> Inr (conn1, lg @ w1)
                    | Some c \<Rightarrow>
                        (case commit float_of c conn1 analyzer project_dir (lg @ w1) of
                           Inl e \<Rightarrow> Inl e
                         | Inr (c1, conn2, lg2) \<Rightarrow> Inr (conn2, lg2)))
                   = Inr (conn1, (lg @ w1) @ [])" using None by simp
    with same_for_refl[of cc conn1] show ?thesis by blast
  next
    case (Some c)
    with o1 have "collected_ok (collected c)" "country c \<noteq> cc" by (simp_all add: open_ok_def)
    from commit_other[OF this assms(4), of float_of conn1 analyzer "lg @ w1"]
    obtain c1 conn2 w2 where
      cm: "commit float_of c conn1 analyzer project_dir (lg @ w1) = Inr (c1, conn2, (lg @ w1) @ w2)"
        "same_for cc conn1 conn2" by blast
    have "(case collector1 of
                      None \<Rightarrow> Inr (conn1, lg @ w1)
                    | Some c \<Rightarrow>
                        (case commit float_of c conn1 analyzer project_dir (lg @ w1) of
                           Inl e \<Rightarrow> Inl e
                         | Inr (c1, conn2, lg2) \<Rightarrow> Inr (conn2, lg2)))
                   = Inr (conn2, (lg @ w1) @ w2)" using Some cm(1) by simp
    with cm(2) show ?thesis by blast
  qed
  then obtain conn2 w2 where
    fin: "(case collector1 of
                      None \<Rightarrow> Inr (conn1, lg @ w1)
                    | Some c \<Rightarrow>
                        (case commit float_of c conn1 analyzer project_dir (lg @ w1) of
                           Inl e \<Rightarrow> Inl e
                         | Inr (c1, conn2, lg2) \<Rightarrow> Inr (conn2, lg2)))
                   = Inr (conn2, (lg @ w1) @ w2)"
    and s2: "same_for cc conn1 conn2" by blast
  have s02: "same_for cc conn conn2" using s1 s2 by (rule same_for_trans)
  then have sel2: "select_postcodes conn2 cc = select_postcodes conn cc"
    and ex2: "filter (\<lambda>s. statement_country s = cc) (executed conn2) =
              filter (\<lambda>s. statement_country s = cc) (executed conn)"
    by (simp_all add: same_for_def)
  have ne2: "select_postcodes conn2 cc \<noteq> []" using ne sel2 by simp
  from todo_loop_stale[where gm = get_matcher and f = float_of and an = analyzer
      and pd = project_dir and lg = "(lg @ w1) @ w2", OF t1 ne2 assms(3,4)]
  obtain conn' w where
    td: "todo_loop float_of get_matcher analyzer project_dir todo1 conn2 ((lg @ w1) @ w2)
           = Inr (conn', ((lg @ w1) @ w2) @ w)"
      "filter (\<lambda>s. statement_country s = cc) (executed conn') =
             filter (\<lambda>s. statement_country s = cc) (executed conn2)
               @ [DELETE cc (map fst (select_postcodes conn2 cc))]"
      "select_postcodes conn' cc = []"
      "Info_processing cc 0 (length (select_postcodes conn2 cc)) 0 \<in> set w" by blast
  have 1: "update_postcodes float_of get_matcher conn project_dir analyzer lg
             = Inr (conn', lg @ (w1 @ w2 @ w))"
    unfolding update_postcodes_def Let_def st using fin td(1) by simp
  have 2: "filter (\<lambda>s. statement_country s = cc) (executed conn') =
             filter (\<lambda>s. statement_country s = cc) (executed conn)
               @ [DELETE cc (map fst (select_postcodes conn cc))]"
    using td(2) unfolding sel2 ex2 .
  have 3: "Info_processing cc 0 (length (select_postcodes conn cc)) 0 \<in> set (w1 @ w2 @ w)"
    using td(4) unfolding sel2 by simp
  from 1 2 3 td(3) show ?thesis by blast
qed

text \<open>
  Claim C6: the driver commits an empty collector for every country that is only stored.
  The commits of the countries in the stream come first, and an error in one of them
  ends the pass. Here country it has a stored postcode and no row in the stream, and
  the external file of country de has a line without the longitude: the commit for de
  raises \<open>TypeError\<close> out of \<open>update_postcodes\<close>, and no commit for it takes place.
\<close>

theorem short_line_aborts_pass:
  "update_postcodes
     (\<lambda>s. if s = ''52.5'' then Some (Finite (105 / 2)) else None)
     (\<lambda>c. Some \<lparr>match = (\<lambda>s. Some s), normalize = (\<lambda>s. Some s)\<rparr>)
     \<lparr>location_postcode =
        [\<lparr>place_id = 1, indexed_status = 0, country_code = ''it'', postcode = ''00100'',
          geometry = (12, 41)\<rparr>],
      seq_place = 1, placex_postcodes = [(''de'', ''10115'', 13, 52)], executed = []\<rparr>
     (Some [''de_postcodes.csv'' \<mapsto>
              [[''postcode'' \<mapsto> Some ''10117'', ''lat'' \<mapsto> Some ''52.5'', ''lon'' \<mapsto> None]]])
     \<lparr>normalize_postcode = (\<lambda>s. s), normalize_postcode_of_None = Inl AttributeError\<rparr>
     []
   = Inl TypeError"
  by (simp add: update_postcodes_def commit_def commit_changes_def update_from_external_def
        open_external_def add_def match_normalize_def collected_iadd_def iadd_def
        PointsCentroid_init_def PostcodeCollector_init_def call_normalize_postcode_def
        to_float_def Let_def)

text \<open>With a complete file for de the pass returns and the postcode of it is deleted.\<close>

lemma stale_country_is_deleted_example:
  "\<exists>conn' w.
     update_postcodes
       (\<lambda>s. if s = ''52.5'' then Some (Finite (105 / 2))
             else if s = ''13.4'' then Some (Finite (67 / 5)) else None)
       (\<lambda>c. Some \<lparr>match = (\<lambda>s. Some s), normalize = (\<lambda>s. Some s)\<rparr>)
       \<lparr>location_postcode =
          [\<lparr>place_id = 1, indexed_status = 0, country_code = ''it'', postcode = ''00100'',
            geometry = (12, 41)\<rparr>],
        seq_place = 1, placex_postcodes = [(''de'', ''10115'', 13, 52)], executed = []\<rparr>
       (Some [''de_postcodes.csv'' \<mapsto>
                [[''postcode'' \<mapsto> Some ''10117'', ''lat'' \<mapsto> Some ''52.5'',
                  ''lon'' \<mapsto> Some ''13.4'']]])
       \<lparr>normalize_postcode = (\<lambda>s. s), normalize_postcode_of_None = Inl AttributeError\<rparr>
       [] = Inr (conn', w) \<and>
     filter (\<lambda>s. statement_country s = ''it'') (executed conn') = [DELETE ''it'' [''00100'']] \<and>
     Info_processing ''it'' 0 1 0 \<in> set w \<and>
     select_postcodes conn' ''it'' = []"
proof -
  let ?conn = "\<lparr>location_postcode =
         [\<lparr>place_id = 1, indexed_status = 0, country_code = ''it'', postcode = ''00100'',
           geometry = (12, 41)\<rparr>],
       seq_place = 1, placex_postcodes = [(''de'', ''10115'', 13, 52)], executed = []\<rparr>"
  let ?dir = "[''de_postcodes.csv'' \<mapsto>
                [[''postcode'' \<mapsto> Some ''10117'', ''lat'' \<mapsto> Some ''52.5'',
                  ''lon'' \<mapsto> Some ''13.4'']]]"
  let ?f = "\<lambda>s. if s = ''52.5'' then Some (Finite (105 / 2))
             else if s = ''13.4'' then Some (Finite (67 / 5)) else None"
  let ?an = "\<lparr>normalize_postcode = (\<lambda>s. s), normalize_postcode_of_None = Inl AttributeError\<rparr>"
  have h1: "''it'' \<in> set (map country_code (location_postcode ?conn))" by simp
  have h2: "''it'' \<notin> fst ` set (placex_postcodes ?conn)" by simp
  have h3: "\<forall>d. Some ?dir = Some d \<longrightarrow>
             (\<exists>c l. update_from_external ?f
                       (PostcodeCollector_init ''it''
                          ((\<lambda>c. Some \<lparr>match = (\<lambda>s. Some s), normalize = (\<lambda>s. Some s)\<rparr>) ''it''))
                       ?an d [] = Inr (c, l)
                    \<and> collected c = [])"
    by (simp add: update_from_external_def open_external_def PostcodeCollector_init_def)
  have h4: "complete_files (Some ?dir)"
    by (simp add: complete_files_def complete_row_def)
  from stale_country_is_deleted
    [where get_matcher = "\<lambda>c. Some \<lparr>match = (\<lambda>s. Some s), normalize = (\<lambda>s. Some s)\<rparr>"
       and float_of = ?f and analyzer = ?an
       and project_dir = "Some ?dir" and cc = "''it''" and conn = ?conn and lg = "[]",
     OF h1 h2 h3 h4]
  show ?thesis by (simp add: select_postcodes_def)
qed

section \<open>Version strings\<close>

lemma of_char_digit_char: "d < 10 \<Longrightarrow> (of_char (digit_char d) :: nat) = 48 + d"
  by (simp add: digit_char_def)

lemma is_digit_digit_char: "d < 10 \<Longrightarrow> is_digit (digit_char d)"
  by (simp add: is_digit_def of_char_digit_char)

lemma is_digit_not_special:
  assumes "is_digit c"
  shows "c \<noteq> CHR ''.''" "c \<noteq> CHR ''-''" "c \<noteq> CHR ''_''" "c \<noteq> CHR ''+''" "\<not> is_space c"
  using assms by (auto simp: is_digit_def is_space_def)

lemma digit_string_str_nat: "digit_string (str_nat n)"
proof (induction n rule: str_nat.induct)
  case (1 n)
  show ?case
  proof (cases "n < 10")
    case True
    then show ?thesis by (subst str_nat.simps) (simp add: digit_string_def is_digit_digit_char)
  next
    case False
    with 1 have "digit_string (str_nat (n div 10))" by simp
    moreover have "is_digit (digit_char (n mod 10))" by (simp add: is_digit_digit_char)
    ultimately show ?thesis using False
      by (subst str_nat.simps) (auto simp: digit_string_def)
  qed
qed

lemma digits_value_snoc: "digits_value (ds @ [c]) = 10 * digits_value ds + (of_char c - 48)"
  by (simp add: digits_value_def)

lemma digits_value_str_nat: "digits_value (str_nat n) = n"
proof (induction n rule: str_nat.induct)
  case (1 n)
  show ?case
  proof (cases "n < 10")
    case True
    then show ?thesis
      by (subst str_nat.simps) (simp add: digits_value_def of_char_digit_char)
  next
    case False
    with 1 have "digits_value (str_nat (n div 10)) = n div 10" by simp
    then show ?thesis using False
      by (subst str_nat.simps) (simp add: digits_value_snoc of_char_digit_char)
  qed
qed

lemma valid_digits_digits: "s \<noteq> [] \<Longrightarrow> \<forall>c \<in> set s. is_digit c \<Longrightarrow> valid_digits s"
proof (induction s rule: valid_digits.induct)
  case 1 then show ?case by simp
next
  case (2 c) then show ?case by simp
next
  case (3 c d cs)
  then have "d \<noteq> CHR ''_''" using is_digit_not_special(3)[of d] by auto
  with 3 show ?case by simp
qed

lemma dropWhile_id: "\<forall>c \<in> set s. \<not> P c \<Longrightarrow> dropWhile P s = s"
  by (cases s) auto

lemma strip_digits: "\<forall>c \<in> set s. is_digit c \<Longrightarrow> strip s = s"
  by (simp add: strip_def dropWhile_id is_digit_not_special(5))

lemma filter_id: "\<forall>c \<in> set s. P c \<Longrightarrow> filter P s = s"
  by (induction s) auto

lemma int_of_str_digits:
  assumes "digit_string s" and "length s \<le> int_max_str_digits"
  shows "int_of_str s = Inr (int (digits_value s))"
proof -
  from assms(1) obtain c cs where s: "s = c # cs" by (cases s) (auto simp: digit_string_def)
  have all: "\<forall>c \<in> set s. is_digit c" and ne: "s \<noteq> []"
    using assms(1) by (auto simp: digit_string_def)
  have c: "is_digit c" using all s by simp
  have "strip s = s" using all by (rule strip_digits)
  moreover have "c \<noteq> CHR ''-''" "c \<noteq> CHR ''+''" using is_digit_not_special[OF c] by auto
  moreover have "valid_digits s" using ne all by (rule valid_digits_digits)
  moreover have "filter is_digit s = s" using all by (rule filter_id)
  ultimately show ?thesis using s assms(2) by (simp add: int_of_str_def Let_def)
qed

text \<open>A number below \<open>10 ^ k\<close> has at most \<open>k\<close> digits.\<close>

lemma length_str_nat: "n < 10 ^ k \<Longrightarrow> 0 < k \<Longrightarrow> length (str_nat n) \<le> k"
proof (induction n arbitrary: k rule: str_nat.induct)
  case (1 n)
  show ?case
  proof (cases "n < 10")
    case True
    with "1.prems"(2) show ?thesis by (subst str_nat.simps) simp
  next
    case False
    obtain j where k: "k = Suc j" using "1.prems"(2) by (cases k) auto
    have "j \<noteq> 0"
    proof
      assume "j = 0"
      with k "1.prems"(1) False show False by simp
    qed
    then have j: "0 < j" by simp
    from "1.prems"(1) k have "n div 10 < 10 ^ j" by (simp add: less_mult_imp_div_less mult.commute)
    from "1.IH"[OF False this j] have "length (str_nat (n div 10)) \<le> j" .
    with k False show ?thesis by (subst str_nat.simps) simp
  qed
qed

lemma int_max_str_digits_pos: "0 < int_max_str_digits"
  by (simp add: int_max_str_digits_def)

lemma str_int_nonneg:
  assumes "0 \<le> i" and "i < 10 ^ int_max_str_digits"
  shows "str_int i = Inr (str_nat (nat i))"
  using assms by (simp add: str_int_def)

lemma int_of_str_str_nat:
  assumes "0 \<le> i" and "i < 10 ^ int_max_str_digits"
  shows "int_of_str (str_nat (nat i)) = Inr i"
proof -
  from assms have "int (nat i) < 10 ^ int_max_str_digits" by simp
  then have "nat i < 10 ^ int_max_str_digits"
    by (metis of_nat_less_iff of_nat_numeral of_nat_power)
  then have "length (str_nat (nat i)) \<le> int_max_str_digits"
    using int_max_str_digits_pos by (rule length_str_nat)
  from int_of_str_digits[OF digit_string_str_nat this] assms(1)
  show ?thesis by (simp add: digits_value_str_nat)
qed

lemma str_split_no_sep: "sep \<notin> set s \<Longrightarrow> str_split sep s = [s]"
  by (induction s) auto

lemma str_split_append: "sep \<notin> set s \<Longrightarrow> str_split sep (s @ sep # t) = s # str_split sep t"
  by (induction s) auto

lemma digit_string_no_dot: "digit_string s \<Longrightarrow> CHR ''.'' \<notin> set s"
  using is_digit_not_special(1) by (auto simp: digit_string_def)

lemma digit_string_no_dash: "digit_string s \<Longrightarrow> CHR ''-'' \<notin> set s"
  using is_digit_not_special(2) by (auto simp: digit_string_def)

text \<open>
  Claim C10, as stated: for every version whose fields are integers that are not
  negative, \<open>parse_version\<close> of its string is the version again. A field of more than
  \<open>int_max_str_digits\<close> digits cannot be formatted: \<open>__str__\<close> raises \<open>ValueError\<close>, and
  there is no string to parse.
\<close>

theorem version_round_trip_counterexample:
  "NominatimVersion_str
     \<lparr>major = 10 ^ 4300, minor = 0, patch_level = 0, db_patch_level = Some 0\<rparr>
   = Inl ValueError"
proof -
  have e: "str_int (10 ^ 4300) = Inl ValueError"
    unfolding str_int_def int_max_str_digits_def
    by (simp only: power_abs abs_numeral order_refl if_True)
  show ?thesis
    unfolding NominatimVersion_str_def
    by (simp only: NominatimVersion.simps option.case e sum.case)
qed

text \<open>
  Claim C10, amended: for a version whose four fields are integers that are not
  negative and have at most \<open>int_max_str_digits\<close> digits, \<open>__str__\<close> returns a string,
  and \<open>parse_version\<close> of that string is the version again.
\<close>

theorem version_round_trip:
  assumes "0 \<le> major v" "major v < 10 ^ int_max_str_digits"
      and "0 \<le> minor v" "minor v < 10 ^ int_max_str_digits"
      and "0 \<le> patch_level v" "patch_level v < 10 ^ int_max_str_digits"
      and "db_patch_level v = Some d" "0 \<le> d" "d < 10 ^ int_max_str_digits"
  shows "\<exists>s. NominatimVersion_str v = Inr s \<and> parse_version s = Inr v"
proof -
  let ?a = "str_nat (nat (major v))" and ?b = "str_nat (nat (minor v))"
  let ?c = "str_nat (nat (patch_level v))" and ?d = "str_nat (nat d)"
  let ?s = "?a @ CHR ''.'' # ?b @ CHR ''.'' # (?c @ CHR ''-'' # ?d)"
  have da: "digit_string ?a" and db: "digit_string ?b" and dc: "digit_string ?c"
    and dd: "digit_string ?d"
    by (rule digit_string_str_nat)+
  have str: "NominatimVersion_str v = Inr ?s"
    using assms by (simp add: NominatimVersion_str_def str_int_nonneg)
  have nodot: "CHR ''.'' \<notin> set (?c @ CHR ''-'' # ?d)"
    using digit_string_no_dot[OF dc] digit_string_no_dot[OF dd] by simp
  have parts: "str_split CHR ''.'' ?s = [?a, ?b, ?c @ CHR ''-'' # ?d]"
    by (simp only: str_split_append[OF digit_string_no_dot[OF da]]
          str_split_append[OF digit_string_no_dot[OF db]] str_split_no_sep[OF nodot])
  have sub: "str_split CHR ''-'' (?c @ CHR ''-'' # ?d) = [?c, ?d]"
    by (simp only: str_split_append[OF digit_string_no_dash[OF dc]]
          str_split_no_sep[OF digit_string_no_dash[OF dd]])
  have ints: "ints_of_strs [?a, ?b, ?c, ?d] = Inr [major v, minor v, patch_level v, d]"
    using assms by (simp add: int_of_str_str_nat)
  have "parse_version ?s =
        Inr \<lparr>major = major v, minor = minor v, patch_level = patch_level v,
             db_patch_level = Some d\<rparr>"
    unfolding parse_version_def parts Let_def using sub ints by simp
  also have "\<dots> = Inr v" using assms(7) by simp
  finally have "parse_version ?s = Inr v" .
  with str show ?thesis by blast
qed

lemma below_ten_is_short: "i < 10 \<Longrightarrow> (i::int) < 10 ^ int_max_str_digits"
proof -
  assume "i < 10"
  also have "(10::int) = 10 ^ 1" by simp
  also have "\<dots> \<le> 10 ^ int_max_str_digits"
    using int_max_str_digits_pos by (intro power_increasing) simp_all
  finally show ?thesis .
qed

theorem version_round_trip_witness:
  "(0::int) \<le> 5 \<and> (5::int) < 10 ^ int_max_str_digits \<and>
   NominatimVersion_str \<lparr>major = 5, minor = 1, patch_level = 0, db_patch_level = Some 0\<rparr>
     = Inr ''5.1.0-0'' \<and>
   parse_version ''5.1.0-0''
     = Inr \<lparr>major = 5, minor = 1, patch_level = 0, db_patch_level = Some 0\<rparr>"
proof -
  have b: "(5::int) < 10 ^ int_max_str_digits" "(1::int) < 10 ^ int_max_str_digits"
    "(0::int) < 10 ^ int_max_str_digits"
    by (rule below_ten_is_short, simp)+
  have d: "str_nat 5 = ''5''" "str_nat 1 = ''1''" "str_nat 0 = ''0''"
    by code_simp+
  have s: "NominatimVersion_str
             \<lparr>major = 5, minor = 1, patch_level = 0, db_patch_level = Some 0\<rparr>
           = Inr ''5.1.0-0''"
    using b d by (simp add: NominatimVersion_str_def str_int_nonneg)
  from version_round_trip
         [of "\<lparr>major = 5, minor = 1, patch_level = 0, db_patch_level = Some 0\<rparr>" 0] b
  have "\<exists>s. NominatimVersion_str
               \<lparr>major = 5, minor = 1, patch_level = 0, db_patch_level = Some 0\<rparr> = Inr s \<and>
             parse_version s
               = Inr \<lparr>major = 5, minor = 1, patch_level = 0, db_patch_level = Some 0\<rparr>"
    by simp
  with s b show ?thesis by auto
qed

end
